theory Spec2Isabelle
  imports Main
begin

section \<open>The type model read by the printer\<close>

text \<open>
  A \<open>types.Type\<close> value is an interface holding either nothing (\<open>nil\<close>) or a pointer to
  a type node.  The printer compares such values with \<open>==\<close>, that is by the address
  they hold, so the model keeps addresses: the nodes live in a store and refer to
  each other by address.
\<close>

datatype type_ref = TNil | Ref nat

datatype BasicKind =
    Invalid
  | Bool | IntKind | Int8 | Int16 | Int32 | Int64
  | Uint | Uint8 | Uint16 | Uint32 | Uint64 | Uintptr
  | Float32 | Float64 | Complex64 | Complex128
  | String | UnsafePointer
  | UntypedBool | UntypedInt | UntypedRune | UntypedFloat | UntypedComplex
  | UntypedString | UntypedNil

text \<open>\<open>ChanDir\<close> is an \<open>int\<close> with three declared constants.\<close>

type_synonym ChanDir = int

definition SendRecv :: ChanDir where "SendRecv = 0"
definition SendOnly :: ChanDir where "SendOnly = 1"
definition RecvOnly :: ChanDir where "RecvOnly = 2"

text \<open>A \<open>*types.Var\<close>: a struct field, a parameter or a result.\<close>

record Var =
  Name :: string
  Type :: type_ref
  Anonymous :: bool

text \<open>A \<open>*types.Func\<close>: an explicit method of an interface.\<close>

record Func =
  FuncName :: string
  FuncType :: type_ref

text \<open>
  The nodes.  A package pointer is an address or \<open>nil\<close> (\<open>None\<close>).  The parameter and
  result tuples of a signature are kept in the node: \<open>writeSignature\<close> hands them to
  \<open>writeTuple\<close> directly, which never looks at their address.  \<open>Opaque\<close> is any other
  implementation of \<open>types.Type\<close>: the name of its dynamic type and what its two
  methods \<open>String()\<close> and \<open>Underlying()\<close> return.
\<close>

datatype node =
    Basic BasicKind string
  | Array int type_ref
  | Slice type_ref
  | Struct "Var list" "string list"
  | Pointer type_ref
  | Tuple "Var list"
  | Signature "Var list" "Var list" bool
  | Interface "Func list" "type_ref list"
  | Map type_ref type_ref
  | Chan ChanDir type_ref
  | Named "nat option" string type_ref
  | Opaque string string type_ref

record env =
  nodes :: "node list"
  pkg_name :: "nat \<Rightarrow> string"
  quote :: "string \<Rightarrow> string"

datatype error = Error string
datatype panic = Panic string

type_synonym result = "panic + string \<times> error option"

definition deref :: "env \<Rightarrow> nat \<Rightarrow> node option" where
  "deref E a = (if a < length (nodes E) then Some (nodes E ! a) else None)"

definition nil_dereference :: panic where
  "nil_dereference = Panic ''runtime error: invalid memory address or nil pointer dereference''"

definition interface_conversion :: panic where
  "interface_conversion = Panic ''interface conversion: types.Type is not *types.Signature''"

fun dynamic_type :: "node \<Rightarrow> string" where
  "dynamic_type (Basic k n) = ''*types.Basic''"
| "dynamic_type (Array l e) = ''*types.Array''"
| "dynamic_type (Slice e) = ''*types.Slice''"
| "dynamic_type (Struct fs tags) = ''*types.Struct''"
| "dynamic_type (Pointer e) = ''*types.Pointer''"
| "dynamic_type (Tuple vs) = ''*types.Tuple''"
| "dynamic_type (Signature ps rs v) = ''*types.Signature''"
| "dynamic_type (Interface ms es) = ''*types.Interface''"
| "dynamic_type (Map k e) = ''*types.Map''"
| "dynamic_type (Chan d e) = ''*types.Chan''"
| "dynamic_type (Named p n u) = ''*types.Named''"
| "dynamic_type (Opaque t s u) = t"

definition fmt_T :: "env \<Rightarrow> type_ref \<Rightarrow> string" where
  "fmt_T E typ =
     (case typ of
        TNil \<Rightarrow> ''<nil>''
      | Ref a \<Rightarrow> (case deref E a of None \<Rightarrow> [] | Some n \<Rightarrow> dynamic_type n))"

definition cycle :: string where
  "cycle = [CHR 0xE2, CHR 0x97, CHR 0x8B]"

fun digits :: "nat \<Rightarrow> string" where
  "digits n =
     (if n < 10 then [''0123456789'' ! n]
      else digits (n div 10) @ [''0123456789'' ! (n mod 10)])"

definition fmt_d :: "int \<Rightarrow> string" where
  "fmt_d i = (if i < 0 then CHR ''-'' # digits (nat (- i)) else digits (nat i))"

definition Tag :: "string list \<Rightarrow> nat \<Rightarrow> string" where
  "Tag tags i = (if i < length tags then tags ! i else [])"

definition Underlying :: "env \<Rightarrow> type_ref \<Rightarrow> panic + type_ref" where
  "Underlying E typ =
     (case typ of
        TNil \<Rightarrow> Inl nil_dereference
      | Ref a \<Rightarrow>
          (case deref E a of
             None \<Rightarrow> Inl nil_dereference
           | Some n \<Rightarrow>
               (case n of
                  Named p nm u \<Rightarrow> Inr u
                | Opaque t s u \<Rightarrow> Inr u
                | _ \<Rightarrow> Inr (Ref a))))"

definition as_Slice :: "env \<Rightarrow> type_ref \<Rightarrow> type_ref option" where
  "as_Slice E typ =
     (case typ of
        TNil \<Rightarrow> None
      | Ref a \<Rightarrow> (case deref E a of Some (Slice e) \<Rightarrow> Some e | _ \<Rightarrow> None))"

definition as_Basic :: "env \<Rightarrow> type_ref \<Rightarrow> BasicKind option" where
  "as_Basic E typ =
     (case typ of
        TNil \<Rightarrow> None
      | Ref a \<Rightarrow> (case deref E a of Some (Basic k n) \<Rightarrow> Some k | _ \<Rightarrow> None))"

definition as_Chan :: "env \<Rightarrow> type_ref \<Rightarrow> ChanDir option" where
  "as_Chan E typ =
     (case typ of
        TNil \<Rightarrow> None
      | Ref a \<Rightarrow> (case deref E a of Some (Chan d e) \<Rightarrow> Some d | _ \<Rightarrow> None))"

definition as_Signature :: "env \<Rightarrow> type_ref \<Rightarrow> (Var list \<times> Var list \<times> bool) option" where
  "as_Signature E typ =
     (case typ of
        TNil \<Rightarrow> None
      | Ref a \<Rightarrow> (case deref E a of Some (Signature ps rs v) \<Rightarrow> Some (ps, rs, v) | _ \<Rightarrow> None))"

text \<open>Modelled from the spec: \<open>isImported\<close> is not among the sources.  The spec has the
  name qualified when the owning scope of the named type differs from the viewing
  scope, the two compared as scopes and not by their identifiers.\<close>

definition isImported :: "nat option \<Rightarrow> nat option \<Rightarrow> bool" where
  "isImported pkg owner = (owner \<noteq> pkg)"

definition unvisited :: "env \<Rightarrow> type_ref list \<Rightarrow> nat" where
  "unvisited E visited = card {a. a < length (nodes E) \<and> Ref a \<notin> set visited}"

text \<open>What the loop bodies write around the type of element \<open>i\<close>: before it the
  separator and the name when there is one to write, after the type of a field its
  tag.\<close>

definition field_head :: "nat \<Rightarrow> Var \<Rightarrow> string \<Rightarrow> string" where
  "field_head i f buf =
     (if Anonymous f then (if i > 0 then buf @ ''; '' else buf)
      else (if i > 0 then buf @ ''; '' else buf) @ Name f @ '' '')"

definition field_tail :: "env \<Rightarrow> string list \<Rightarrow> nat \<Rightarrow> string \<Rightarrow> string" where
  "field_tail E tags i buf =
     (if Tag tags i \<noteq> [] then buf @ '' '' @ quote E (Tag tags i) else buf)"

definition tuple_head :: "nat \<Rightarrow> Var \<Rightarrow> string \<Rightarrow> string" where
  "tuple_head i v buf =
     (if Name v \<noteq> [] then (if i > 0 then buf @ '', '' else buf) @ Name v @ '' ''
      else (if i > 0 then buf @ '', '' else buf))"

definition method_head :: "nat \<Rightarrow> Func \<Rightarrow> string \<Rightarrow> string" where
  "method_head i m buf = (if i > 0 then buf @ ''; '' else buf) @ FuncName m"

definition embedded_head :: "nat \<Rightarrow> nat \<Rightarrow> string \<Rightarrow> string" where
  "embedded_head i nmethods buf = (if i > 0 \<or> nmethods > 0 then buf @ ''; '' else buf)"

function writeType :: "env \<Rightarrow> nat option \<Rightarrow> type_ref \<Rightarrow> type_ref list \<Rightarrow> string \<Rightarrow> result"
  and writeType_fields ::
    "env \<Rightarrow> nat option \<Rightarrow> Var list \<Rightarrow> string list \<Rightarrow> nat \<Rightarrow> type_ref list \<Rightarrow> string \<Rightarrow> result"
  and writeType_methods ::
    "env \<Rightarrow> nat option \<Rightarrow> Func list \<Rightarrow> nat \<Rightarrow> type_ref list \<Rightarrow> string \<Rightarrow> result"
  and writeType_embeddeds ::
    "env \<Rightarrow> nat option \<Rightarrow> type_ref list \<Rightarrow> nat \<Rightarrow> nat \<Rightarrow> type_ref list \<Rightarrow> string \<Rightarrow> result"
  and writeTuple_loop ::
    "env \<Rightarrow> nat option \<Rightarrow> Var list \<Rightarrow> bool \<Rightarrow> nat \<Rightarrow> type_ref list \<Rightarrow> string \<Rightarrow> result"
  and writeTuple ::
    "env \<Rightarrow> nat option \<Rightarrow> Var list \<Rightarrow> bool \<Rightarrow> type_ref list \<Rightarrow> string \<Rightarrow> result"
  and writeSignature ::
    "env \<Rightarrow> nat option \<Rightarrow> Var list \<Rightarrow> Var list \<Rightarrow> bool \<Rightarrow> type_ref list \<Rightarrow> string \<Rightarrow> result"
where
  "writeType E pkg typ visited buf =
     (if typ \<in> set visited then Inr (buf @ cycle @ fmt_T E typ, None)
      else
        (case typ of
           TNil \<Rightarrow> Inr (buf @ ''nil'', None)
         | Ref a \<Rightarrow>
             (case deref E a of
                None \<Rightarrow> Inl nil_dereference
              | Some n \<Rightarrow>
                  (case n of
                     Basic k name \<Rightarrow>
                       if k = Invalid then Inr (buf, Some (Error ''TODO''))
                       else Inr ((if k = UnsafePointer then buf @ ''unsafe.'' else buf) @ name, None)
                   | Array len elem \<Rightarrow>
                       writeType E pkg elem (visited @ [typ]) (buf @ ''['' @ fmt_d len @ '']'')
                   | Slice elem \<Rightarrow>
                       writeType E pkg elem (visited @ [typ]) (buf @ ''[]'')
                   | Struct fs tags \<Rightarrow>
                       (case writeType_fields E pkg fs tags 0 (visited @ [typ]) (buf @ ''struct{'') of
                          Inl p \<Rightarrow> Inl p
                        | Inr (b, Some err) \<Rightarrow> Inr (b, Some err)
                        | Inr (b, None) \<Rightarrow> Inr (b @ ''}'', None))
                   | Pointer elem \<Rightarrow>
                       writeType E pkg elem (visited @ [typ]) (buf @ ''*'')
                   | Tuple tup \<Rightarrow>
                       writeTuple E pkg tup False (visited @ [typ]) buf
                   | Signature params results variadic \<Rightarrow>
                       writeSignature E pkg params results variadic (visited @ [typ]) (buf @ ''func'')
                   | Interface methods embeddeds \<Rightarrow>
                       (case writeType_methods E pkg methods 0 (visited @ [typ]) (buf @ ''interface{'') of
                          Inl p \<Rightarrow> Inl p
                        | Inr (b, Some err) \<Rightarrow> Inr (b, Some err)
                        | Inr (b, None) \<Rightarrow>
                            (case writeType_embeddeds E pkg embeddeds (length methods) 0
                                    (visited @ [typ]) b of
                               Inl p \<Rightarrow> Inl p
                             | Inr (b', Some err) \<Rightarrow> Inr (b', Some err)
                             | Inr (b', None) \<Rightarrow> Inr (b' @ ''}'', None)))
                   | Map key elem \<Rightarrow>
                       (case writeType E pkg key (visited @ [typ]) (buf @ ''map['') of
                          Inl p \<Rightarrow> Inl p
                        | Inr (b, Some err) \<Rightarrow> Inr (b, Some err)
                        | Inr (b, None) \<Rightarrow> writeType E pkg elem (visited @ [typ]) (b @ '']''))
                   | Chan dir elem \<Rightarrow>
                       if dir \<noteq> SendRecv \<and> dir \<noteq> SendOnly \<and> dir \<noteq> RecvOnly
                       then Inl (Panic ''unreachable'')
                       else
                         (case writeType E pkg elem (visited @ [typ])
                                 (buf @ (if dir = SendRecv then ''chan ''
                                         else if dir = SendOnly then ''chan<- '' else ''<-chan '')
                                      @ (if dir = SendRecv \<and> as_Chan E elem = Some RecvOnly
                                         then ''('' else [])) of
                            Inl p \<Rightarrow> Inl p
                          | Inr (b, Some err) \<Rightarrow> Inr (b, Some err)
                          | Inr (b, None) \<Rightarrow>
                              Inr (if dir = SendRecv \<and> as_Chan E elem = Some RecvOnly
                                   then b @ '')'' else b, None))
                   | Named owner name underlying \<Rightarrow>
                       if isImported pkg owner \<and> owner \<noteq> None
                       then Inr (buf @ pkg_name E (the owner) @ ''.'' @ name, None)
                       else Inr (buf @ name, None)
                   | Opaque tag str underlying \<Rightarrow> Inr (buf @ str, None)))))"
| "writeType_fields E pkg fs tags i visited buf =
     (if i < length fs then
        (case writeType E pkg (Type (fs ! i)) visited
                (field_head i (fs ! i) buf) of
           Inl p \<Rightarrow> Inl p
         | Inr (b, Some err) \<Rightarrow> Inr (b, Some err)
         | Inr (b, None) \<Rightarrow>
             writeType_fields E pkg fs tags (i + 1) visited (field_tail E tags i b))
      else Inr (buf, None))"
| "writeType_methods E pkg methods i visited buf =
     (if i < length methods then
        (case as_Signature E (FuncType (methods ! i)) of
           None \<Rightarrow> Inl interface_conversion
         | Some (params, results, variadic) \<Rightarrow>
             (case writeSignature E pkg params results variadic visited
                     (method_head i (methods ! i) buf) of
                Inl p \<Rightarrow> Inl p
              | Inr (b, Some err) \<Rightarrow> Inr (b, Some err)
              | Inr (b, None) \<Rightarrow> writeType_methods E pkg methods (i + 1) visited b))
      else Inr (buf, None))"
| "writeType_embeddeds E pkg embeddeds nmethods i visited buf =
     (if i < length embeddeds then
        (case writeType E pkg (embeddeds ! i) visited
                (embedded_head i nmethods buf) of
           Inl p \<Rightarrow> Inl p
         | Inr (b, Some err) \<Rightarrow> Inr (b, Some err)
         | Inr (b, None) \<Rightarrow> writeType_embeddeds E pkg embeddeds nmethods (i + 1) visited b)
      else Inr (buf, None))"
| "writeTuple_loop E pkg tup variadic i visited buf =
     (if i < length tup then
        (if variadic \<and> i = length tup - 1 then
           (case as_Slice E (Type (tup ! i)) of
              Some elem \<Rightarrow>
                (case writeType E pkg elem visited
                        (tuple_head i (tup ! i) buf @ ''...'') of
                   Inl p \<Rightarrow> Inl p
                 | Inr (b, err) \<Rightarrow> writeTuple_loop E pkg tup variadic (i + 1) visited b)
            | None \<Rightarrow>
                (case Underlying E (Type (tup ! i)) of
                   Inl p \<Rightarrow> Inl p
                 | Inr u \<Rightarrow>
                     if as_Basic E u \<noteq> Some String
                     then Inl (Panic ''internal error: string type expected'')
                     else
                       (case writeType E pkg (Type (tup ! i)) visited
                               (tuple_head i (tup ! i) buf) of
                          Inl p \<Rightarrow> Inl p
                        | Inr (b, err) \<Rightarrow>
                            writeTuple_loop E pkg tup variadic (i + 1) visited (b @ ''...''))))
         else
           (case writeType E pkg (Type (tup ! i)) visited
                   (tuple_head i (tup ! i) buf) of
              Inl p \<Rightarrow> Inl p
            | Inr (b, err) \<Rightarrow> writeTuple_loop E pkg tup variadic (i + 1) visited b))
      else Inr (buf, None))"
| "writeTuple E pkg tup variadic visited buf =
     (case writeTuple_loop E pkg tup variadic 0 visited (buf @ ''('') of
        Inl p \<Rightarrow> Inl p
      | Inr (b, err) \<Rightarrow> Inr (b @ '')'', None))"
| "writeSignature E pkg params results variadic visited buf =
     (case writeTuple E pkg params variadic visited buf of
        Inl p \<Rightarrow> Inl p
      | Inr (b, err) \<Rightarrow>
          if length results = 0 then Inr (b, None)
          else if length results = 1 \<and> Name (results ! 0) = []
          then writeType E pkg (Type (results ! 0)) visited (b @ '' '')
          else writeTuple E pkg results False visited (b @ '' ''))"
  by pat_completeness auto

termination
proof -
  have less: "unvisited E (visited @ [Ref a]) < unvisited E visited"
    if "Ref a \<notin> set visited" and "deref E a = Some n" for E visited a n
  proof -
    have "a < length (nodes E)"
      using that(2) by (simp add: deref_def split: if_splits)
    then have "{b. b < length (nodes E) \<and> Ref b \<notin> set (visited @ [Ref a])}
                 \<subset> {b. b < length (nodes E) \<and> Ref b \<notin> set visited}"
      using that(1) by auto
    then show ?thesis
      unfolding unvisited_def by (intro psubset_card_mono) auto
  qed
  show ?thesis
    by (relation "inv_image (less_than <*lex*> less_than <*lex*> less_than)
          (\<lambda>x. case x of
             Inl (Inl (E, pkg, typ, visited, buf)) \<Rightarrow> (unvisited E visited, 0::nat, 0::nat)
           | Inl (Inr (Inl (E, pkg, fs, tags, i, visited, buf))) \<Rightarrow>
               (unvisited E visited, 1, length fs - i)
           | Inl (Inr (Inr (E, pkg, ms, i, visited, buf))) \<Rightarrow>
               (unvisited E visited, 4, length ms - i)
           | Inr (Inl (Inl (E, pkg, es, n, i, visited, buf))) \<Rightarrow>
               (unvisited E visited, 1, length es - i)
           | Inr (Inl (Inr (E, pkg, tup, v, i, visited, buf))) \<Rightarrow>
               (unvisited E visited, 1, length tup - i)
           | Inr (Inr (Inl (E, pkg, tup, v, visited, buf))) \<Rightarrow> (unvisited E visited, 2, 0)
           | Inr (Inr (Inr (E, pkg, ps, rs, v, visited, buf))) \<Rightarrow>
               (unvisited E visited, 3, 0))")
       (auto simp: less)
qed

definition typeString :: "env \<Rightarrow> nat option \<Rightarrow> type_ref \<Rightarrow> result" where
  "typeString E pkg typ = writeType E pkg typ [] []"

definition quote_ascii :: "string \<Rightarrow> string" where
  "quote_ascii s =
     CHR 0x22 # concat (map (\<lambda>c. if c = CHR 0x22 \<or> c = CHR 0x5C then [CHR 0x5C, c] else [c]) s)
       @ [CHR 0x22]"

text \<open>Types that refer to themselves with no named type between: a struct through a
  pointer, a pointer to itself, an interface that embeds itself, and a slice of arrays
  of itself.\<close>

definition E_cycle :: env where
  "E_cycle =
     \<lparr>nodes =
        [Basic IntKind ''int'',
         Struct [\<lparr>Name = ''next'', Type = Ref 2, Anonymous = False\<rparr>,
                 \<lparr>Name = ''v'', Type = Ref 0, Anonymous = False\<rparr>] [],
         Pointer (Ref 1),
         Pointer (Ref 3),
         Interface [] [Ref 4],
         Slice (Ref 6),
         Array 4 (Ref 5)],
      pkg_name = (\<lambda>p. ''p''), quote = quote_ascii\<rparr>"

text \<open>Channels of every direction over \<open>int\<close> and over each other.\<close>

definition E_chan :: env where
  "E_chan =
     \<lparr>nodes =
        [Basic IntKind ''int'', Chan RecvOnly (Ref 0), Chan SendRecv (Ref 1),
         Chan SendRecv (Ref 0), Chan SendOnly (Ref 0), Chan SendRecv (Ref 4),
         Chan SendOnly (Ref 1), Chan RecvOnly (Ref 1), Chan SendRecv (Ref 3)],
      pkg_name = (\<lambda>p. ''p''), quote = quote_ascii\<rparr>"


text \<open>The signatures \<open>func(a int, b ...string) (bool, error)\<close>, \<open>func(int) bool\<close>,
  \<open>func(int) (ok bool)\<close> and \<open>func()\<close>.\<close>

definition E_func :: env where
  "E_func =
     \<lparr>nodes =
        [Basic IntKind ''int'', Basic String ''string'', Slice (Ref 1), Basic Bool ''bool'',
         Named None ''error'' (Ref 9),
         Signature [\<lparr>Name = ''a'', Type = Ref 0, Anonymous = False\<rparr>,
                    \<lparr>Name = ''b'', Type = Ref 2, Anonymous = False\<rparr>]
                   [\<lparr>Name = [], Type = Ref 3, Anonymous = False\<rparr>,
                    \<lparr>Name = [], Type = Ref 4, Anonymous = False\<rparr>] True,
         Signature [\<lparr>Name = [], Type = Ref 0, Anonymous = False\<rparr>]
                   [\<lparr>Name = [], Type = Ref 3, Anonymous = False\<rparr>] False,
         Signature [\<lparr>Name = [], Type = Ref 0, Anonymous = False\<rparr>]
                   [\<lparr>Name = ''ok'', Type = Ref 3, Anonymous = False\<rparr>] False,
         Signature [] [] False,
         Interface [] []],
      pkg_name = (\<lambda>p. ''p''), quote = quote_ascii\<rparr>"

text \<open>The invalid type, and types that hold it: as a parameter, as the element of a
  map, in a tuple and in the signature of a struct field.\<close>

definition E_invalid :: env where
  "E_invalid =
     \<lparr>nodes =
        [Basic Invalid ''invalid type'',
         Signature [\<lparr>Name = [], Type = Ref 0, Anonymous = False\<rparr>] [] False,
         Basic String ''string'',
         Map (Ref 2) (Ref 0),
         Tuple [\<lparr>Name = ''x'', Type = Ref 0, Anonymous = False\<rparr>],
         Struct [\<lparr>Name = ''f'', Type = Ref 1, Anonymous = False\<rparr>] [],
         Pointer (Ref 0)],
      pkg_name = (\<lambda>p. ''p''), quote = quote_ascii\<rparr>"

text \<open>The signature \<open>func([]byte, string...)\<close> that \<open>append(s, "foo"...)\<close> leads to, the
  same with a named string type, and a variadic signature whose last parameter is an
  \<open>int\<close>.\<close>

definition E_append :: env where
  "E_append =
     \<lparr>nodes =
        [Basic Uint8 ''byte'', Slice (Ref 0), Basic String ''string'',
         Signature [\<lparr>Name = [], Type = Ref 1, Anonymous = False\<rparr>,
                    \<lparr>Name = [], Type = Ref 2, Anonymous = False\<rparr>] [] True,
         Basic IntKind ''int'',
         Signature [\<lparr>Name = [], Type = Ref 4, Anonymous = False\<rparr>] [] True,
         Named (Some 1) ''Str'' (Ref 2),
         Signature [\<lparr>Name = ''s'', Type = Ref 6, Anonymous = False\<rparr>] [] True],
      pkg_name = (\<lambda>p. ''p''), quote = quote_ascii\<rparr>"

text \<open>
  Reaching a type again.  \<open>revisits E pkg x vis t\<close>: the call of \<open>writeType\<close> on \<open>t\<close>
  with the list \<open>vis\<close> leads to a call of \<open>writeType\<close> on \<open>x\<close> with \<open>x\<close> on the
  list of that call.  There is one rule for each place where the source calls
  \<open>writeType\<close>, \<open>writeTuple\<close> or \<open>writeSignature\<close>; a call that comes after another
  one in the source is made when the earlier one has returned without a panic and,
  where the source checks it, without an error.
\<close>

inductive revisits :: "env \<Rightarrow> nat option \<Rightarrow> type_ref \<Rightarrow> type_ref list \<Rightarrow> type_ref \<Rightarrow> bool"
  and revisits_fields :: "env \<Rightarrow> nat option \<Rightarrow> type_ref \<Rightarrow> type_ref list \<Rightarrow> Var list \<Rightarrow> nat \<Rightarrow> bool"
  and revisits_methods :: "env \<Rightarrow> nat option \<Rightarrow> type_ref \<Rightarrow> type_ref list \<Rightarrow> Func list \<Rightarrow> nat \<Rightarrow> bool"
  and revisits_embeddeds ::
    "env \<Rightarrow> nat option \<Rightarrow> type_ref \<Rightarrow> type_ref list \<Rightarrow> type_ref list \<Rightarrow> nat \<Rightarrow> bool"
  and revisits_tuple ::
    "env \<Rightarrow> nat option \<Rightarrow> type_ref \<Rightarrow> type_ref list \<Rightarrow> Var list \<Rightarrow> bool \<Rightarrow> nat \<Rightarrow> bool"
  and revisits_signature ::
    "env \<Rightarrow> nat option \<Rightarrow> type_ref \<Rightarrow> type_ref list \<Rightarrow> Var list \<Rightarrow> Var list \<Rightarrow> bool \<Rightarrow> bool"
  for E :: env and pkg :: "nat option" and x :: type_ref
where
  here: "x \<in> set vis \<Longrightarrow> revisits E pkg x vis x"
| in_Array:
    "Ref a \<notin> set vis \<Longrightarrow> deref E a = Some (Array l e) \<Longrightarrow>
     revisits E pkg x (vis @ [Ref a]) e \<Longrightarrow> revisits E pkg x vis (Ref a)"
| in_Slice:
    "Ref a \<notin> set vis \<Longrightarrow> deref E a = Some (Slice e) \<Longrightarrow>
     revisits E pkg x (vis @ [Ref a]) e \<Longrightarrow> revisits E pkg x vis (Ref a)"
| in_Pointer:
    "Ref a \<notin> set vis \<Longrightarrow> deref E a = Some (Pointer e) \<Longrightarrow>
     revisits E pkg x (vis @ [Ref a]) e \<Longrightarrow> revisits E pkg x vis (Ref a)"
| in_Chan:
    "Ref a \<notin> set vis \<Longrightarrow> deref E a = Some (Chan d e) \<Longrightarrow>
     d = SendRecv \<or> d = SendOnly \<or> d = RecvOnly \<Longrightarrow>
     revisits E pkg x (vis @ [Ref a]) e \<Longrightarrow> revisits E pkg x vis (Ref a)"
| in_Map_key:
    "Ref a \<notin> set vis \<Longrightarrow> deref E a = Some (Map k e) \<Longrightarrow>
     revisits E pkg x (vis @ [Ref a]) k \<Longrightarrow> revisits E pkg x vis (Ref a)"
| in_Map_elem:
    "Ref a \<notin> set vis \<Longrightarrow> deref E a = Some (Map k e) \<Longrightarrow>
     writeType E pkg k (vis @ [Ref a]) [] = Inr (s, None) \<Longrightarrow>
     revisits E pkg x (vis @ [Ref a]) e \<Longrightarrow> revisits E pkg x vis (Ref a)"
| in_Struct:
    "Ref a \<notin> set vis \<Longrightarrow> deref E a = Some (Struct fs tags) \<Longrightarrow>
     revisits_fields E pkg x (vis @ [Ref a]) fs 0 \<Longrightarrow> revisits E pkg x vis (Ref a)"
| in_Tuple:
    "Ref a \<notin> set vis \<Longrightarrow> deref E a = Some (Tuple tup) \<Longrightarrow>
     revisits_tuple E pkg x (vis @ [Ref a]) tup False 0 \<Longrightarrow> revisits E pkg x vis (Ref a)"
| in_Signature:
    "Ref a \<notin> set vis \<Longrightarrow> deref E a = Some (Signature ps rs v) \<Longrightarrow>
     revisits_signature E pkg x (vis @ [Ref a]) ps rs v \<Longrightarrow> revisits E pkg x vis (Ref a)"
| in_Interface_method:
    "Ref a \<notin> set vis \<Longrightarrow> deref E a = Some (Interface ms es) \<Longrightarrow>
     revisits_methods E pkg x (vis @ [Ref a]) ms 0 \<Longrightarrow> revisits E pkg x vis (Ref a)"
| in_Interface_embedded:
    "Ref a \<notin> set vis \<Longrightarrow> deref E a = Some (Interface ms es) \<Longrightarrow>
     writeType_methods E pkg ms 0 (vis @ [Ref a]) [] = Inr (s, None) \<Longrightarrow>
     revisits_embeddeds E pkg x (vis @ [Ref a]) es 0 \<Longrightarrow> revisits E pkg x vis (Ref a)"
| field_here:
    "i < length fs \<Longrightarrow> revisits E pkg x vis (Type (fs ! i)) \<Longrightarrow>
     revisits_fields E pkg x vis fs i"
| field_later:
    "i < length fs \<Longrightarrow> writeType E pkg (Type (fs ! i)) vis [] = Inr (s, None) \<Longrightarrow>
     revisits_fields E pkg x vis fs (i + 1) \<Longrightarrow> revisits_fields E pkg x vis fs i"
| method_here:
    "i < length ms \<Longrightarrow> FuncType (ms ! i) = Ref g \<Longrightarrow> deref E g = Some (Signature ps rs v) \<Longrightarrow>
     revisits_signature E pkg x vis ps rs v \<Longrightarrow> revisits_methods E pkg x vis ms i"
| method_later:
    "i < length ms \<Longrightarrow> FuncType (ms ! i) = Ref g \<Longrightarrow> deref E g = Some (Signature ps rs v) \<Longrightarrow>
     writeSignature E pkg ps rs v vis [] = Inr (s, None) \<Longrightarrow>
     revisits_methods E pkg x vis ms (i + 1) \<Longrightarrow> revisits_methods E pkg x vis ms i"
| embedded_here:
    "i < length es \<Longrightarrow> revisits E pkg x vis (es ! i) \<Longrightarrow> revisits_embeddeds E pkg x vis es i"
| embedded_later:
    "i < length es \<Longrightarrow> writeType E pkg (es ! i) vis [] = Inr (s, None) \<Longrightarrow>
     revisits_embeddeds E pkg x vis es (i + 1) \<Longrightarrow> revisits_embeddeds E pkg x vis es i"
| param_here:
    "i < length tup \<Longrightarrow> \<not> (variadic \<and> i = length tup - 1) \<Longrightarrow>
     revisits E pkg x vis (Type (tup ! i)) \<Longrightarrow> revisits_tuple E pkg x vis tup variadic i"
| param_later:
    "i < length tup \<Longrightarrow> \<not> (variadic \<and> i = length tup - 1) \<Longrightarrow>
     writeType E pkg (Type (tup ! i)) vis [] = Inr (s, err) \<Longrightarrow>
     revisits_tuple E pkg x vis tup variadic (i + 1) \<Longrightarrow> revisits_tuple E pkg x vis tup variadic i"
| param_last_slice:
    "i < length tup \<Longrightarrow> variadic \<and> i = length tup - 1 \<Longrightarrow>
     Type (tup ! i) = Ref c \<Longrightarrow> deref E c = Some (Slice e) \<Longrightarrow>
     revisits E pkg x vis e \<Longrightarrow> revisits_tuple E pkg x vis tup variadic i"
| param_last_string:
    "i < length tup \<Longrightarrow> variadic \<and> i = length tup - 1 \<Longrightarrow>
     as_Slice E (Type (tup ! i)) = None \<Longrightarrow> Underlying E (Type (tup ! i)) = Inr u \<Longrightarrow>
     as_Basic E u = Some String \<Longrightarrow>
     revisits E pkg x vis (Type (tup ! i)) \<Longrightarrow> revisits_tuple E pkg x vis tup variadic i"
| in_params:
    "revisits_tuple E pkg x vis ps v 0 \<Longrightarrow> revisits_signature E pkg x vis ps rs v"
| in_result:
    "writeTuple E pkg ps v vis [] = Inr (s, err) \<Longrightarrow> length rs = 1 \<and> Name (rs ! 0) = [] \<Longrightarrow>
     revisits E pkg x vis (Type (rs ! 0)) \<Longrightarrow> revisits_signature E pkg x vis ps rs v"
| in_results:
    "writeTuple E pkg ps v vis [] = Inr (s, err) \<Longrightarrow> rs \<noteq> [] \<Longrightarrow>
     \<not> (length rs = 1 \<and> Name (rs ! 0) = []) \<Longrightarrow>
     revisits_tuple E pkg x vis rs False 0 \<Longrightarrow> revisits_signature E pkg x vis ps rs v"

text \<open>\<open>contains m s\<close>: the string \<open>m\<close> occurs in \<open>s\<close>; \<open>marks m r\<close>: it occurs in what
  the result \<open>r\<close> returns, if it returns.\<close>

definition contains :: "string \<Rightarrow> string \<Rightarrow> bool" where
  "contains m s \<longleftrightarrow> (\<exists>pre post. s = pre @ m @ post)"

definition marks :: "string \<Rightarrow> result \<Rightarrow> bool" where
  "marks m r = (case r of Inl p \<Rightarrow> True | Inr (s, e) \<Rightarrow> contains m s)"

text \<open>\<open>join s xs\<close>: the strings \<open>xs\<close> with \<open>s\<close> between each two, as the spec's "joined by".\<close>

fun join :: "string \<Rightarrow> string list \<Rightarrow> string" where
  "join s [] = []"
| "join s [x] = x"
| "join s (x # y # ys) = x @ s @ join s (y # ys)"

text \<open>The struct \<open>struct{X int "json:\"x\""}\<close> of the spec, a struct with an embedded
  field, a tag and a pointer to the first one, and the empty struct.\<close>

definition E_struct :: env where
  "E_struct =
     \<lparr>nodes =
        [Basic IntKind ''int'',
         Struct [\<lparr>Name = ''X'', Type = Ref 0, Anonymous = False\<rparr>] [''json:'' @ [CHR 0x22] @ ''x'' @ [CHR 0x22]],
         Named None ''error'' (Ref 0),
         Struct [\<lparr>Name = ''error'', Type = Ref 2, Anonymous = True\<rparr>,
                 \<lparr>Name = ''n'', Type = Ref 0, Anonymous = False\<rparr>,
                 \<lparr>Name = ''p'', Type = Ref 4, Anonymous = False\<rparr>] [[], ''k''],
         Pointer (Ref 1),
         Struct [] [],
         Slice (Ref 4)],
      pkg_name = (\<lambda>p. ''p''), quote = quote_ascii\<rparr>"

text \<open>
  The part of the store a call can read.  \<open>refs_of n\<close> lists the types a node refers to,
  \<open>within S t\<close> says that \<open>t\<close> is nil or an address of \<open>S\<close>, and \<open>same_graph E E' S\<close> that
  the two stores have the same nodes at the addresses of \<open>S\<close>, that \<open>S\<close> is closed under
  the references of those nodes, and that the package names and the quoting agree.
\<close>

fun refs_of :: "node \<Rightarrow> type_ref list" where
  "refs_of (Basic k nm) = []"
| "refs_of (Array l e) = [e]"
| "refs_of (Slice e) = [e]"
| "refs_of (Struct fs tags) = map Type fs"
| "refs_of (Pointer e) = [e]"
| "refs_of (Tuple tup) = map Type tup"
| "refs_of (Signature ps rs v) = map Type ps @ map Type rs"
| "refs_of (Interface ms es) = map FuncType ms @ es"
| "refs_of (Map k e) = [k, e]"
| "refs_of (Chan d e) = [e]"
| "refs_of (Named ow nm u) = [u]"
| "refs_of (Opaque tg st u) = [u]"

definition within :: "nat set \<Rightarrow> type_ref \<Rightarrow> bool" where
  "within S t = (case t of TNil \<Rightarrow> True | Ref a \<Rightarrow> a \<in> S)"

definition same_graph :: "env \<Rightarrow> env \<Rightarrow> nat set \<Rightarrow> bool" where
  "same_graph E E' S \<longleftrightarrow>
     pkg_name E' = pkg_name E \<and> quote E' = quote E \<and>
     (\<forall>a\<in>S. deref E' a = deref E a \<and>
        (case deref E a of None \<Rightarrow> True | Some n \<Rightarrow> \<forall>c\<in>set (refs_of n). within S c))"

text \<open>
  The store \<open>E_cycle\<close> with other nodes from address 3 on: what the pointer at address 2
  reaches is unchanged.
\<close>

definition E_cycle_moved :: env where
  "E_cycle_moved =
     \<lparr>nodes =
        [Basic IntKind ''int'',
         Struct [\<lparr>Name = ''next'', Type = Ref 2, Anonymous = False\<rparr>,
                 \<lparr>Name = ''v'', Type = Ref 0, Anonymous = False\<rparr>] [],
         Pointer (Ref 1),
         Slice (Ref 0),
         Map (Ref 0) (Ref 3)],
      pkg_name = (\<lambda>p. ''p''), quote = quote_ascii\<rparr>"

text \<open>
  Sequencing, for the proofs.  \<open>and_then\<close> is the caller that checks the error it gets
  back (\<open>if err != nil { return err }\<close>), \<open>and_always\<close> the one that drops it; a panic
  ends both.  \<open>app pre r\<close> is the result \<open>r\<close> had the buffer held \<open>pre\<close> before.
\<close>

definition app :: "string \<Rightarrow> result \<Rightarrow> result" where
  "app pre r = (case r of Inl p \<Rightarrow> Inl p | Inr (s, e) \<Rightarrow> Inr (pre @ s, e))"

definition and_then :: "result \<Rightarrow> (string \<Rightarrow> result) \<Rightarrow> result" where
  "and_then r f =
     (case r of Inl p \<Rightarrow> Inl p | Inr (b, Some err) \<Rightarrow> Inr (b, Some err) | Inr (b, None) \<Rightarrow> f b)"

definition and_always :: "result \<Rightarrow> (string \<Rightarrow> result) \<Rightarrow> result" where
  "and_always r f = (case r of Inl p \<Rightarrow> Inl p | Inr (b, err) \<Rightarrow> f b)"


section \<open>One step of each function\<close>

declare writeType.simps [simp del] writeType_fields.simps [simp del]
  writeType_methods.simps [simp del] writeType_embeddeds.simps [simp del]
  writeTuple_loop.simps [simp del] writeTuple.simps [simp del] writeSignature.simps [simp del]

lemma app_simps [simp]:
  "app pre (Inl p) = Inl p"
  "app pre (Inr (s, e)) = Inr (pre @ s, e)"
  by (simp_all add: app_def)

lemma app_app [simp]: "app p (app q r) = app (p @ q) r"
  by (simp add: app_def split: sum.splits prod.splits)

lemma head_append [simp]:
  "field_head i f (pre @ buf) = pre @ field_head i f buf"
  "tuple_head i v (pre @ buf) = pre @ tuple_head i v buf"
  "method_head i m (pre @ buf) = pre @ method_head i m buf"
  "embedded_head i n (pre @ buf) = pre @ embedded_head i n buf"
  "field_tail E tags i (pre @ buf) = pre @ field_tail E tags i buf"
  by (simp_all add: field_head_def tuple_head_def method_head_def embedded_head_def
      field_tail_def)

lemma writeType_on_path:
  "t \<in> set visited \<Longrightarrow> writeType E pkg t visited buf = Inr (buf @ cycle @ fmt_T E t, None)"
  by (simp add: writeType.simps[of E pkg t visited buf])

lemma writeType_TNil:
  "TNil \<notin> set visited \<Longrightarrow> writeType E pkg TNil visited buf = Inr (buf @ ''nil'', None)"
  by (simp add: writeType.simps[of E pkg TNil visited buf])

lemma writeType_dangling:
  "Ref a \<notin> set visited \<Longrightarrow> deref E a = None \<Longrightarrow>
   writeType E pkg (Ref a) visited buf = Inl nil_dereference"
  by (simp add: writeType.simps[of E pkg "Ref a" visited buf])

lemma writeType_Basic:
  "Ref a \<notin> set visited \<Longrightarrow> deref E a = Some (Basic k nm) \<Longrightarrow>
   writeType E pkg (Ref a) visited buf =
     (if k = Invalid then Inr (buf, Some (Error ''TODO''))
      else Inr ((if k = UnsafePointer then buf @ ''unsafe.'' else buf) @ nm, None))"
  by (simp add: writeType.simps[of E pkg "Ref a" visited buf])

lemma writeType_Array:
  "Ref a \<notin> set visited \<Longrightarrow> deref E a = Some (Array l e) \<Longrightarrow>
   writeType E pkg (Ref a) visited buf =
     writeType E pkg e (visited @ [Ref a]) (buf @ ''['' @ fmt_d l @ '']'')"
  by (simp add: writeType.simps[of E pkg "Ref a" visited buf])

lemma writeType_Slice:
  "Ref a \<notin> set visited \<Longrightarrow> deref E a = Some (Slice e) \<Longrightarrow>
   writeType E pkg (Ref a) visited buf = writeType E pkg e (visited @ [Ref a]) (buf @ ''[]'')"
  by (simp add: writeType.simps[of E pkg "Ref a" visited buf])

lemma writeType_Struct:
  "Ref a \<notin> set visited \<Longrightarrow> deref E a = Some (Struct fs tags) \<Longrightarrow>
   writeType E pkg (Ref a) visited buf =
     (case writeType_fields E pkg fs tags 0 (visited @ [Ref a]) (buf @ ''struct{'') of
        Inl p \<Rightarrow> Inl p
      | Inr (b, Some err) \<Rightarrow> Inr (b, Some err)
      | Inr (b, None) \<Rightarrow> Inr (b @ ''}'', None))"
  by (simp add: writeType.simps[of E pkg "Ref a" visited buf])

lemma writeType_Pointer:
  "Ref a \<notin> set visited \<Longrightarrow> deref E a = Some (Pointer e) \<Longrightarrow>
   writeType E pkg (Ref a) visited buf = writeType E pkg e (visited @ [Ref a]) (buf @ ''*'')"
  by (simp add: writeType.simps[of E pkg "Ref a" visited buf])

lemma writeType_Tuple:
  "Ref a \<notin> set visited \<Longrightarrow> deref E a = Some (Tuple tup) \<Longrightarrow>
   writeType E pkg (Ref a) visited buf = writeTuple E pkg tup False (visited @ [Ref a]) buf"
  by (simp add: writeType.simps[of E pkg "Ref a" visited buf])

lemma writeType_Signature:
  "Ref a \<notin> set visited \<Longrightarrow> deref E a = Some (Signature ps rs v) \<Longrightarrow>
   writeType E pkg (Ref a) visited buf =
     writeSignature E pkg ps rs v (visited @ [Ref a]) (buf @ ''func'')"
  by (simp add: writeType.simps[of E pkg "Ref a" visited buf])

lemma writeType_Interface:
  "Ref a \<notin> set visited \<Longrightarrow> deref E a = Some (Interface ms es) \<Longrightarrow>
   writeType E pkg (Ref a) visited buf =
     (case writeType_methods E pkg ms 0 (visited @ [Ref a]) (buf @ ''interface{'') of
        Inl p \<Rightarrow> Inl p
      | Inr (b, Some err) \<Rightarrow> Inr (b, Some err)
      | Inr (b, None) \<Rightarrow>
          (case writeType_embeddeds E pkg es (length ms) 0 (visited @ [Ref a]) b of
             Inl p \<Rightarrow> Inl p
           | Inr (b', Some err) \<Rightarrow> Inr (b', Some err)
           | Inr (b', None) \<Rightarrow> Inr (b' @ ''}'', None)))"
  by (simp add: writeType.simps[of E pkg "Ref a" visited buf])

lemma writeType_Map:
  "Ref a \<notin> set visited \<Longrightarrow> deref E a = Some (Map k e) \<Longrightarrow>
   writeType E pkg (Ref a) visited buf =
     (case writeType E pkg k (visited @ [Ref a]) (buf @ ''map['') of
        Inl p \<Rightarrow> Inl p
      | Inr (b, Some err) \<Rightarrow> Inr (b, Some err)
      | Inr (b, None) \<Rightarrow> writeType E pkg e (visited @ [Ref a]) (b @ '']''))"
  by (simp add: writeType.simps[of E pkg "Ref a" visited buf])

lemma writeType_Chan:
  "Ref a \<notin> set visited \<Longrightarrow> deref E a = Some (Chan dir e) \<Longrightarrow>
   writeType E pkg (Ref a) visited buf =
     (if dir \<noteq> SendRecv \<and> dir \<noteq> SendOnly \<and> dir \<noteq> RecvOnly then Inl (Panic ''unreachable'')
      else
        (case writeType E pkg e (visited @ [Ref a])
                (buf @ (if dir = SendRecv then ''chan ''
                        else if dir = SendOnly then ''chan<- '' else ''<-chan '')
                     @ (if dir = SendRecv \<and> as_Chan E e = Some RecvOnly then ''('' else [])) of
           Inl p \<Rightarrow> Inl p
         | Inr (b, Some err) \<Rightarrow> Inr (b, Some err)
         | Inr (b, None) \<Rightarrow>
             Inr (if dir = SendRecv \<and> as_Chan E e = Some RecvOnly then b @ '')'' else b, None)))"
  by (simp add: writeType.simps[of E pkg "Ref a" visited buf])

lemma writeType_Named:
  "Ref a \<notin> set visited \<Longrightarrow> deref E a = Some (Named owner nm u) \<Longrightarrow>
   writeType E pkg (Ref a) visited buf =
     (if isImported pkg owner \<and> owner \<noteq> None
      then Inr (buf @ pkg_name E (the owner) @ ''.'' @ nm, None)
      else Inr (buf @ nm, None))"
  by (simp add: writeType.simps[of E pkg "Ref a" visited buf])

lemma writeType_Opaque:
  "Ref a \<notin> set visited \<Longrightarrow> deref E a = Some (Opaque tg str u) \<Longrightarrow>
   writeType E pkg (Ref a) visited buf = Inr (buf @ str, None)"
  by (simp add: writeType.simps[of E pkg "Ref a" visited buf])

lemmas writeType_steps =
  writeType_on_path writeType_TNil writeType_dangling writeType_Basic writeType_Array
  writeType_Slice writeType_Struct writeType_Pointer writeType_Tuple writeType_Signature
  writeType_Interface writeType_Map writeType_Chan writeType_Named writeType_Opaque



lemma and_then_simps [simp]:
  "and_then (Inl p) f = Inl p"
  "and_then (Inr (b, Some err)) f = Inr (b, Some err)"
  "and_then (Inr (b, None)) f = f b"
  by (simp_all add: and_then_def)

lemma and_always_simps [simp]:
  "and_always (Inl p) f = Inl p"
  "and_always (Inr (b, e)) f = f b"
  by (simp_all add: and_always_def)

lemma and_then_app:
  assumes "\<And>b. r = Inr (b, None) \<Longrightarrow> g (pre @ b) = app pre (f b)"
  shows "and_then (app pre r) g = app pre (and_then r f)"
proof (cases r)
  case (Inl p)
  then show ?thesis by simp
next
  case (Inr be)
  obtain b e where "be = (b, e)" by (cases be)
  with Inr assms show ?thesis by (cases e) simp_all
qed

lemma and_always_app:
  assumes "\<And>b e. r = Inr (b, e) \<Longrightarrow> g (pre @ b) = app pre (f b)"
  shows "and_always (app pre r) g = app pre (and_always r f)"
proof (cases r)
  case (Inl p)
  then show ?thesis by simp
next
  case (Inr be)
  obtain b e where "be = (b, e)" by (cases be)
  with Inr assms show ?thesis by simp
qed

lemma case_and_then:
  "(case r of Inl p \<Rightarrow> Inl p | Inr (b, Some err) \<Rightarrow> Inr (b, Some err) | Inr (b, None) \<Rightarrow> f b)
     = and_then r f"
  by (simp add: and_then_def)

lemma case_and_always:
  "(case r of Inl p \<Rightarrow> Inl p | Inr (b, err) \<Rightarrow> f b) = and_always r f"
  by (simp add: and_always_def)

lemma writeType_fields_step:
  "i < length fs \<Longrightarrow>
   writeType_fields E pkg fs tags i visited buf =
     and_then (writeType E pkg (Type (fs ! i)) visited (field_head i (fs ! i) buf))
       (\<lambda>b. writeType_fields E pkg fs tags (i + 1) visited (field_tail E tags i b))"
  unfolding writeType_fields.simps[of E pkg fs tags i visited buf] case_and_then by simp

lemma writeType_fields_done:
  "\<not> i < length fs \<Longrightarrow> writeType_fields E pkg fs tags i visited buf = Inr (buf, None)"
  unfolding writeType_fields.simps[of E pkg fs tags i visited buf] by simp

lemma writeType_methods_step:
  "i < length ms \<Longrightarrow> as_Signature E (FuncType (ms ! i)) = Some (ps, rs, v) \<Longrightarrow>
   writeType_methods E pkg ms i visited buf =
     and_then (writeSignature E pkg ps rs v visited (method_head i (ms ! i) buf))
       (\<lambda>b. writeType_methods E pkg ms (i + 1) visited b)"
  unfolding writeType_methods.simps[of E pkg ms i visited buf] case_and_then by simp

lemma writeType_methods_panic:
  "i < length ms \<Longrightarrow> as_Signature E (FuncType (ms ! i)) = None \<Longrightarrow>
   writeType_methods E pkg ms i visited buf = Inl interface_conversion"
  unfolding writeType_methods.simps[of E pkg ms i visited buf] by simp

lemma writeType_methods_done:
  "\<not> i < length ms \<Longrightarrow> writeType_methods E pkg ms i visited buf = Inr (buf, None)"
  unfolding writeType_methods.simps[of E pkg ms i visited buf] by simp

lemma writeType_embeddeds_step:
  "i < length es \<Longrightarrow>
   writeType_embeddeds E pkg es n i visited buf =
     and_then (writeType E pkg (es ! i) visited (embedded_head i n buf))
       (\<lambda>b. writeType_embeddeds E pkg es n (i + 1) visited b)"
  unfolding writeType_embeddeds.simps[of E pkg es n i visited buf] case_and_then by simp

lemma writeType_embeddeds_done:
  "\<not> i < length es \<Longrightarrow> writeType_embeddeds E pkg es n i visited buf = Inr (buf, None)"
  unfolding writeType_embeddeds.simps[of E pkg es n i visited buf] by simp

lemma writeTuple_loop_done:
  "\<not> i < length tup \<Longrightarrow> writeTuple_loop E pkg tup variadic i visited buf = Inr (buf, None)"
  unfolding writeTuple_loop.simps[of E pkg tup variadic i visited buf] by simp

lemma writeTuple_loop_plain:
  "i < length tup \<Longrightarrow> \<not> (variadic \<and> i = length tup - 1) \<Longrightarrow>
   writeTuple_loop E pkg tup variadic i visited buf =
     and_always (writeType E pkg (Type (tup ! i)) visited (tuple_head i (tup ! i) buf))
       (\<lambda>b. writeTuple_loop E pkg tup variadic (i + 1) visited b)"
  unfolding writeTuple_loop.simps[of E pkg tup variadic i visited buf] case_and_always
  by auto

lemma writeTuple_loop_slice:
  "i < length tup \<Longrightarrow> variadic \<and> i = length tup - 1 \<Longrightarrow>
   as_Slice E (Type (tup ! i)) = Some elem \<Longrightarrow>
   writeTuple_loop E pkg tup variadic i visited buf =
     and_always (writeType E pkg elem visited (tuple_head i (tup ! i) buf @ ''...''))
       (\<lambda>b. writeTuple_loop E pkg tup variadic (i + 1) visited b)"
  unfolding writeTuple_loop.simps[of E pkg tup variadic i visited buf] case_and_always
  by simp

lemma writeTuple_loop_string:
  "i < length tup \<Longrightarrow> variadic \<and> i = length tup - 1 \<Longrightarrow>
   as_Slice E (Type (tup ! i)) = None \<Longrightarrow> Underlying E (Type (tup ! i)) = Inr u \<Longrightarrow>
   as_Basic E u = Some String \<Longrightarrow>
   writeTuple_loop E pkg tup variadic i visited buf =
     and_always (writeType E pkg (Type (tup ! i)) visited (tuple_head i (tup ! i) buf))
       (\<lambda>b. writeTuple_loop E pkg tup variadic (i + 1) visited (b @ ''...''))"
  unfolding writeTuple_loop.simps[of E pkg tup variadic i visited buf] case_and_always
  by simp

lemma writeTuple_loop_no_underlying:
  "i < length tup \<Longrightarrow> variadic \<and> i = length tup - 1 \<Longrightarrow>
   as_Slice E (Type (tup ! i)) = None \<Longrightarrow> Underlying E (Type (tup ! i)) = Inl p \<Longrightarrow>
   writeTuple_loop E pkg tup variadic i visited buf = Inl p"
  unfolding writeTuple_loop.simps[of E pkg tup variadic i visited buf]
  by simp

lemma writeTuple_loop_not_string:
  "i < length tup \<Longrightarrow> variadic \<and> i = length tup - 1 \<Longrightarrow>
   as_Slice E (Type (tup ! i)) = None \<Longrightarrow> Underlying E (Type (tup ! i)) = Inr u \<Longrightarrow>
   as_Basic E u \<noteq> Some String \<Longrightarrow>
   writeTuple_loop E pkg tup variadic i visited buf =
     Inl (Panic ''internal error: string type expected'')"
  unfolding writeTuple_loop.simps[of E pkg tup variadic i visited buf]
  by simp

lemma writeTuple_step:
  "writeTuple E pkg tup variadic visited buf =
     and_always (writeTuple_loop E pkg tup variadic 0 visited (buf @ ''(''))
       (\<lambda>b. Inr (b @ '')'', None))"
  unfolding writeTuple.simps[of E pkg tup variadic visited buf] case_and_always ..

lemma writeSignature_step:
  "writeSignature E pkg ps rs variadic visited buf =
     and_always (writeTuple E pkg ps variadic visited buf)
       (\<lambda>b. if length rs = 0 then Inr (b, None)
            else if length rs = 1 \<and> Name (rs ! 0) = []
            then writeType E pkg (Type (rs ! 0)) visited (b @ '' '')
            else writeTuple E pkg rs False visited (b @ '' ''))"
  unfolding writeSignature.simps[of E pkg ps rs variadic visited buf] case_and_always ..

lemma writeType_app:
    "\<forall>pre. writeType E pkg t visited (pre @ buf) = app pre (writeType E pkg t visited buf)"
  and writeType_fields_app:
    "\<forall>pre. writeType_fields E pkg fs tags i visited (pre @ buf)
          = app pre (writeType_fields E pkg fs tags i visited buf)"
  and writeType_methods_app:
    "\<forall>pre. writeType_methods E pkg ms i visited (pre @ buf)
          = app pre (writeType_methods E pkg ms i visited buf)"
  and writeType_embeddeds_app:
    "\<forall>pre. writeType_embeddeds E pkg es n i visited (pre @ buf)
          = app pre (writeType_embeddeds E pkg es n i visited buf)"
  and writeTuple_loop_app:
    "\<forall>pre. writeTuple_loop E pkg tup variadic i visited (pre @ buf)
          = app pre (writeTuple_loop E pkg tup variadic i visited buf)"
  and writeTuple_app:
    "\<forall>pre. writeTuple E pkg tup variadic visited (pre @ buf)
          = app pre (writeTuple E pkg tup variadic visited buf)"
  and writeSignature_app:
    "\<forall>pre. writeSignature E pkg ps rs variadic visited (pre @ buf)
          = app pre (writeSignature E pkg ps rs variadic visited buf)"
proof (induct E pkg t visited buf and E pkg fs tags i visited buf and E pkg ms i visited buf
    and E pkg es n i visited buf and E pkg tup variadic i visited buf
    and E pkg tup variadic visited buf and E pkg ps rs variadic visited buf
    rule: writeType_writeType_fields_writeType_methods_writeType_embeddeds_writeTuple_loop_writeTuple_writeSignature.induct)
  case (1 E pkg t visited buf)
  show ?case
  proof (cases "t \<in> set visited")
    case True
    then show ?thesis by (simp add: writeType_on_path)
  next
    case False
    show ?thesis
    proof (cases t)
      case TNil
      with False show ?thesis by (simp add: writeType_TNil)
    next
      case (Ref a)
      from False Ref have nv: "Ref a \<notin> set visited" by simp
      show ?thesis
      proof (cases "deref E a")
        case None
        with nv show ?thesis unfolding Ref by (simp add: writeType_dangling)
      next
        case (Some n)
        note ctx = False Ref Some
        show ?thesis
        proof (cases n)
          case (Basic k nm)
          with nv Some show ?thesis unfolding Ref by (simp add: writeType_Basic)
        next
          case (Array l e)
          with nv Some 1(1)[OF ctx Array, unfolded Ref] show ?thesis
            unfolding Ref by (simp add: writeType_Array)
        next
          case (Slice e)
          with nv Some 1(2)[OF ctx Slice, unfolded Ref] show ?thesis
            unfolding Ref by (simp add: writeType_Slice)
        next
          case (Struct fs tags)
          with nv Some 1(3)[OF ctx Struct, unfolded Ref] show ?thesis
            unfolding Ref
            apply (intro allI)
            apply (simp add: writeType_Struct case_and_then)
            apply (rule and_then_app)
            apply simp
            done
        next
          case (Pointer e)
          with nv Some 1(4)[OF ctx Pointer, unfolded Ref] show ?thesis
            unfolding Ref by (simp add: writeType_Pointer)
        next
          case (Tuple tup)
          with nv Some 1(5)[OF ctx Tuple, unfolded Ref] show ?thesis
            unfolding Ref by (simp add: writeType_Tuple)
        next
          case (Signature ps rs v)
          with nv Some 1(6)[OF ctx Signature, unfolded Ref] show ?thesis
            unfolding Ref by (simp add: writeType_Signature)
        next
          case (Interface ms es)
          note ih1 = 1(7)[OF ctx Interface, unfolded Ref]
          note ih2 = 1(8)[OF ctx Interface, OF _ refl refl, unfolded Ref]
          from nv Some Interface ih1 ih2 show ?thesis
            unfolding Ref
            apply (intro allI)
            apply (simp add: writeType_Interface case_and_then)
            apply (rule and_then_app)
            apply simp
            apply (rule and_then_app)
            apply simp
            done
        next
          case (Map k e)
          note ih1 = 1(9)[OF ctx Map, unfolded Ref]
          note ih2 = 1(10)[OF ctx Map, OF _ refl refl, unfolded Ref]
          from nv Some Map ih1 ih2 show ?thesis
            unfolding Ref
            apply (intro allI)
            apply (simp add: writeType_Map case_and_then)
            apply (rule and_then_app)
            apply simp
            done
        next
          case (Chan d e)
          show ?thesis
          proof (cases "d \<noteq> SendRecv \<and> d \<noteq> SendOnly \<and> d \<noteq> RecvOnly")
            case True
            with nv Some Chan show ?thesis unfolding Ref by (simp add: writeType_Chan)
          next
            case False
            define s where "s = (if d = SendRecv then ''chan ''
                 else if d = SendOnly then ''chan<- '' else ''<-chan '')
                 @ (if d = SendRecv \<and> as_Chan E e = Some RecvOnly then ''('' else [])"
            define par where "par \<longleftrightarrow> d = SendRecv \<and> as_Chan E e = Some RecvOnly"
            have eq: "writeType E pkg (Ref a) visited b =
                and_then (writeType E pkg e (visited @ [Ref a]) (b @ s))
                  (\<lambda>b. Inr (if par then b @ '')'' else b, None))" for b
              using nv Some Chan False
              by (auto simp add: writeType_Chan case_and_then s_def par_def)
            have ih: "\<forall>pre. writeType E pkg e (visited @ [Ref a]) (pre @ buf @ s)
                = app pre (writeType E pkg e (visited @ [Ref a]) (buf @ s))"
              using 1(11)[OF ctx Chan False, unfolded Ref] unfolding s_def .
            show ?thesis
              unfolding Ref eq
              apply (intro allI)
              apply (simp add: ih)
              apply (rule and_then_app)
              apply simp
              done
          qed
        next
          case (Named p nm u)
          with nv Some show ?thesis unfolding Ref by (simp add: writeType_Named)
        next
          case (Opaque tg str u)
          with nv Some show ?thesis unfolding Ref by (simp add: writeType_Opaque)
        qed
      qed
    qed
  qed
next
  case (2 E pkg fs tags i visited buf)
  show ?case
  proof (cases "i < length fs")
    case True
    note ih1 = 2(1)[OF True]
    note ih2 = 2(2)[OF True _ refl refl]
    from ih1 ih2 show ?thesis
      unfolding writeType_fields_step[OF True]
      apply (intro allI)
      apply simp
      apply (rule and_then_app)
      apply simp
      done
  next
    case False
    then show ?thesis by (simp add: writeType_fields_done)
  qed
next
  case (3 E pkg ms i visited buf)
  show ?case
  proof (cases "i < length ms")
    case True
    show ?thesis
    proof (cases "as_Signature E (FuncType (ms ! i))")
      case None
      with True show ?thesis by (simp add: writeType_methods_panic)
    next
      case (Some sg)
      obtain ps rs v where sg: "sg = (ps, rs, v)" by (cases sg)
      note ih1 = 3(1)[OF True Some[unfolded sg] refl refl]
      note ih2 = 3(2)[OF True Some[unfolded sg] refl refl _ refl refl]
      from ih1 ih2 show ?thesis
        unfolding writeType_methods_step[OF True Some[unfolded sg]]
        apply (intro allI)
        apply simp
        apply (rule and_then_app)
        apply simp
        done
    qed
  next
    case False
    then show ?thesis by (simp add: writeType_methods_done)
  qed
next
  case (4 E pkg es n i visited buf)
  show ?case
  proof (cases "i < length es")
    case True
    note ih1 = 4(1)[OF True]
    note ih2 = 4(2)[OF True _ refl refl]
    from ih1 ih2 show ?thesis
      unfolding writeType_embeddeds_step[OF True]
      apply (intro allI)
      apply simp
      apply (rule and_then_app)
      apply simp
      done
  next
    case False
    then show ?thesis by (simp add: writeType_embeddeds_done)
  qed
next
  case (5 E pkg tup variadic i visited buf)
  show ?case
  proof (cases "i < length tup")
    case False
    then show ?thesis by (simp add: writeTuple_loop_done)
  next
    case True
    show ?thesis
    proof (cases "variadic \<and> i = length tup - 1")
      case False
      note ih1 = 5(5)[OF True False]
      note ih2 = 5(6)[OF True False _ refl]
      from ih1 ih2 show ?thesis
        unfolding writeTuple_loop_plain[OF True False]
        apply (intro allI)
        apply simp
        apply (rule and_always_app)
        apply simp
        done
    next
      case last: True
      show ?thesis
      proof (cases "as_Slice E (Type (tup ! i))")
        case (Some elem)
        note ih1 = 5(3)[OF True last Some]
        note ih2 = 5(4)[OF True last Some _ refl]
        from ih1 ih2 show ?thesis
          unfolding writeTuple_loop_slice[OF True last Some]
          apply (intro allI)
          apply simp
          apply (rule and_always_app)
          apply simp
          done
      next
        case None
        show ?thesis
        proof (cases "Underlying E (Type (tup ! i))")
          case (Inl p)
          show ?thesis
            unfolding writeTuple_loop_no_underlying[OF True last None Inl] by simp
        next
          case (Inr u)
          show ?thesis
          proof (cases "as_Basic E u = Some String")
            case False
            show ?thesis
              unfolding writeTuple_loop_not_string[OF True last None Inr False] by simp
          next
            case str: True
            then have nn: "\<not> as_Basic E u \<noteq> Some String" by simp
            note ih1 = 5(1)[OF True last None Inr nn]
            note ih2 = 5(2)[OF True last None Inr nn _ refl]
            from ih1 ih2 show ?thesis
              unfolding writeTuple_loop_string[OF True last None Inr str]
              apply (intro allI)
              apply simp
              apply (rule and_always_app)
              apply simp
              done
          qed
        qed
      qed
    qed
  qed
next
  case (6 E pkg tup variadic visited buf)
  from 6 show ?case
    unfolding writeTuple_step
    apply (intro allI)
    apply simp
    apply (rule and_always_app)
    apply simp
    done
next
  case (7 E pkg ps rs variadic visited buf)
  note ih2 = 7(2)[OF _ refl]
  note ih3 = 7(3)[OF _ refl]
  from 7(1) ih2 ih3 show ?case
    unfolding writeSignature_step
    apply (intro allI)
    apply simp
    apply (rule and_always_app)
    apply simp
    done
qed


lemma writeType_from_empty:
  "writeType E pkg t visited buf = app buf (writeType E pkg t visited [])"
  using writeType_app[of E pkg t visited "[]", rule_format, of buf]
  by (simp only: append_Nil2)

lemma writeType_fields_from_empty:
  "writeType_fields E pkg fs tags i visited buf
     = app buf (writeType_fields E pkg fs tags i visited [])"
  using writeType_fields_app[of E pkg fs tags i visited "[]", rule_format, of buf]
  by (simp only: append_Nil2)

lemma writeTuple_loop_from_empty:
  "writeTuple_loop E pkg tup variadic i visited buf
     = app buf (writeTuple_loop E pkg tup variadic i visited [])"
  using writeTuple_loop_app[of E pkg tup variadic i visited "[]", rule_format, of buf]
  by (simp only: append_Nil2)

lemma writeTuple_from_empty:
  "writeTuple E pkg tup variadic visited buf = app buf (writeTuple E pkg tup variadic visited [])"
  using writeTuple_app[of E pkg tup variadic visited "[]", rule_format, of buf]
  by (simp only: append_Nil2)

lemma writeSignature_from_empty:
  "writeSignature E pkg ps rs variadic visited buf
     = app buf (writeSignature E pkg ps rs variadic visited [])"
  using writeSignature_app[of E pkg ps rs variadic visited "[]", rule_format, of buf]
  by (simp only: append_Nil2)

lemmas eval_simps =
  writeType.simps writeType_fields.simps writeType_methods.simps writeType_embeddeds.simps
  writeTuple_loop.simps writeTuple.simps writeSignature.simps typeString_def deref_def
  fmt_T_def fmt_d_def Tag_def field_head_def field_tail_def tuple_head_def method_head_def
  embedded_head_def as_Slice_def as_Basic_def as_Chan_def as_Signature_def Underlying_def
  isImported_def SendRecv_def SendOnly_def RecvOnly_def quote_ascii_def

section \<open>What a call leaves in the buffer\<close>

lemma writeType_methods_from_empty:
  "writeType_methods E pkg ms i visited buf = app buf (writeType_methods E pkg ms i visited [])"
  using writeType_methods_app[of E pkg ms i visited "[]", rule_format, of buf]
  by (simp only: append_Nil2)

lemma writeType_embeddeds_from_empty:
  "writeType_embeddeds E pkg es n i visited buf
     = app buf (writeType_embeddeds E pkg es n i visited [])"
  using writeType_embeddeds_app[of E pkg es n i visited "[]", rule_format, of buf]
  by (simp only: append_Nil2)

lemma app_Inr_iff:
  "app pre r = Inr (b, e) \<longleftrightarrow> (\<exists>s. r = Inr (s, e) \<and> b = pre @ s)"
  by (auto simp add: app_def split: sum.splits prod.splits)

lemma app_Inl_iff: "app pre r = Inl p \<longleftrightarrow> r = Inl p"
  by (auto simp add: app_def split: sum.splits prod.splits)

lemma writeType_prefix:
  "writeType E pkg t visited buf = Inr (b, e) \<Longrightarrow> \<exists>s. b = buf @ s"
  using writeType_from_empty[of E pkg t visited buf] by (auto simp: app_Inr_iff)

lemma writeType_fields_prefix:
  "writeType_fields E pkg fs tags i visited buf = Inr (b, e) \<Longrightarrow> \<exists>s. b = buf @ s"
  using writeType_fields_from_empty[of E pkg fs tags i visited buf] by (auto simp: app_Inr_iff)

lemma writeTuple_loop_prefix:
  "writeTuple_loop E pkg tup v i visited buf = Inr (b, e) \<Longrightarrow> \<exists>s. b = buf @ s"
  using writeTuple_loop_from_empty[of E pkg tup v i visited buf] by (auto simp: app_Inr_iff)

lemma writeTuple_prefix:
  "writeTuple E pkg tup v visited buf = Inr (b, e) \<Longrightarrow> \<exists>s. b = buf @ s"
  using writeTuple_from_empty[of E pkg tup v visited buf] by (auto simp: app_Inr_iff)

lemma writeSignature_prefix:
  "writeSignature E pkg ps rs v visited buf = Inr (b, e) \<Longrightarrow> \<exists>s. b = buf @ s"
  using writeSignature_from_empty[of E pkg ps rs v visited buf] by (auto simp: app_Inr_iff)

lemma writeTuple_parenthesised:
  assumes "writeTuple E pkg tup v visited [] = Inr (s, e)"
  shows "e = None \<and> (\<exists>body. s = ''('' @ body @ '')'')"
proof -
  from assms obtain b e' where b: "writeTuple_loop E pkg tup v 0 visited ''('' = Inr (b, e')"
    and s: "s = b @ '')''" and e: "e = None"
    unfolding writeTuple_step by (auto simp add: and_always_def split: sum.splits prod.splits)
  from writeTuple_loop_prefix[OF b] obtain r where "b = ''('' @ r" by blast
  with s e show ?thesis by simp
qed

section \<open>The parameters before the last\<close>

lemma and_always_assoc:
  "and_always (and_always r f) g = and_always r (\<lambda>b. and_always (f b) g)"
  by (simp add: and_always_def split: sum.splits prod.splits)

lemma writeTuple_loop_snoc:
  "i \<le> length ps \<Longrightarrow>
   writeTuple_loop E pkg (ps @ [v]) variadic i visited buf =
     and_always (writeTuple_loop E pkg ps False i visited buf)
       (\<lambda>b. writeTuple_loop E pkg (ps @ [v]) variadic (length ps) visited b)"
proof (induct "length ps - i" arbitrary: i buf)
  case 0
  then have "i = length ps" by simp
  then show ?case by (simp add: writeTuple_loop_done)
next
  case (Suc k)
  then have lt: "i < length ps" and k: "k = length ps - (i + 1)" and le: "i + 1 \<le> length ps"
    by simp_all
  from lt have lt': "i < length (ps @ [v])" and nl: "\<not> (variadic \<and> i = length (ps @ [v]) - 1)"
    by simp_all
  have nl0: "\<not> (False \<and> i = length ps - 1)" by simp
  have ih: "(\<lambda>b. writeTuple_loop E pkg (ps @ [v]) variadic (i + 1) visited b) =
      (\<lambda>b. and_always (writeTuple_loop E pkg ps False (i + 1) visited b)
         (\<lambda>b. writeTuple_loop E pkg (ps @ [v]) variadic (length ps) visited b))"
    using Suc(1)[OF k le] by (intro ext)
  from lt have nth: "(ps @ [v]) ! i = ps ! i" by (simp add: nth_append)
  show ?case
    unfolding writeTuple_loop_plain[OF lt' nl] writeTuple_loop_plain[OF lt nl0] and_always_assoc
      ih nth ..
qed

section \<open>A type reached again leaves its mark\<close>

lemma contains_self: "contains m m"
  unfolding contains_def by (rule exI[of _ "[]"], rule exI[of _ "[]"]) simp

lemma contains_appendL: "contains m a \<Longrightarrow> contains m (a @ b)"
  unfolding contains_def by (metis append.assoc)

lemma contains_appendR: "contains m b \<Longrightarrow> contains m (a @ b)"
  unfolding contains_def by (metis append.assoc)

lemma contains_Cons: "contains m b \<Longrightarrow> contains m (c # b)"
  using contains_appendR[of m b "[c]"] by simp

lemma marks_simps [simp]:
  "marks m (Inl p)"
  "marks m (Inr (s, e)) = contains m s"
  by (simp_all add: marks_def)

lemma marks_app: "marks m r \<Longrightarrow> marks m (app pre r)"
  by (auto simp add: marks_def app_def contains_appendR split: sum.splits prod.splits)

lemma marks_and_then_first:
  assumes "marks m r" and "\<And>b. marks m (Inr (b, None)) \<Longrightarrow> marks m (f b)"
  shows "marks m (and_then r f)"
  using assms by (auto simp add: and_then_def split: sum.splits prod.splits option.splits)

lemma marks_and_always_first:
  assumes "marks m r" and "\<And>b. marks m (Inr (b, None)) \<Longrightarrow> marks m (f b)"
  shows "marks m (and_always r f)"
  using assms by (auto simp add: and_always_def split: sum.splits prod.splits option.splits)

lemma marks_app_keep: "contains m pre \<Longrightarrow> marks m (app pre r)"
  by (auto simp add: marks_def app_def contains_appendL split: sum.splits prod.splits)


lemma keeps:
  "contains m buf \<Longrightarrow> marks m (writeType E pkg t visited buf)"
  "contains m buf \<Longrightarrow> marks m (writeType_fields E pkg fs tags i visited buf)"
  "contains m buf \<Longrightarrow> marks m (writeType_methods E pkg ms i visited buf)"
  "contains m buf \<Longrightarrow> marks m (writeType_embeddeds E pkg es n i visited buf)"
  "contains m buf \<Longrightarrow> marks m (writeTuple_loop E pkg tup v i visited buf)"
  "contains m buf \<Longrightarrow> marks m (writeTuple E pkg tup v visited buf)"
  "contains m buf \<Longrightarrow> marks m (writeSignature E pkg ps rs v visited buf)"
  using writeType_from_empty[of E pkg t visited buf]
    writeType_fields_from_empty[of E pkg fs tags i visited buf]
    writeType_methods_from_empty[of E pkg ms i visited buf]
    writeType_embeddeds_from_empty[of E pkg es n i visited buf]
    writeTuple_loop_from_empty[of E pkg tup v i visited buf]
    writeTuple_from_empty[of E pkg tup v visited buf]
    writeSignature_from_empty[of E pkg ps rs v visited buf]
  by (simp_all only: marks_app_keep)

lemma contains_heads:
  "contains m b \<Longrightarrow> contains m (field_tail E tags i b)"
  "contains m b \<Longrightarrow> contains m (field_head i f b)"
  "contains m b \<Longrightarrow> contains m (tuple_head i v b)"
  "contains m b \<Longrightarrow> contains m (method_head i mt b)"
  "contains m b \<Longrightarrow> contains m (embedded_head i n b)"
  by (auto simp add: field_tail_def field_head_def tuple_head_def method_head_def
      embedded_head_def intro: contains_appendL)

lemma at_buffer:
  "writeType E pkg t visited [] = Inr (s, e) \<Longrightarrow> writeType E pkg t visited buf = Inr (buf @ s, e)"
  "writeType_methods E pkg ms i visited [] = Inr (s, e)
     \<Longrightarrow> writeType_methods E pkg ms i visited buf = Inr (buf @ s, e)"
  "writeTuple E pkg tup v visited [] = Inr (s, e)
     \<Longrightarrow> writeTuple E pkg tup v visited buf = Inr (buf @ s, e)"
  "writeSignature E pkg ps rs v visited [] = Inr (s, e)
     \<Longrightarrow> writeSignature E pkg ps rs v visited buf = Inr (buf @ s, e)"
  using writeType_from_empty[of E pkg t visited buf]
    writeType_methods_from_empty[of E pkg ms i visited buf]
    writeTuple_from_empty[of E pkg tup v visited buf]
    writeSignature_from_empty[of E pkg ps rs v visited buf]
  by simp_all

lemma revisits_marks:
  shows "revisits E pkg x vis t \<Longrightarrow> marks (cycle @ fmt_T E x) (writeType E pkg t vis buf)"
    and "revisits_fields E pkg x vis fs i
          \<Longrightarrow> marks (cycle @ fmt_T E x) (writeType_fields E pkg fs tags i vis buf)"
    and "revisits_methods E pkg x vis ms i
          \<Longrightarrow> marks (cycle @ fmt_T E x) (writeType_methods E pkg ms i vis buf)"
    and "revisits_embeddeds E pkg x vis es i
          \<Longrightarrow> marks (cycle @ fmt_T E x) (writeType_embeddeds E pkg es n i vis buf)"
    and "revisits_tuple E pkg x vis tup v i
          \<Longrightarrow> marks (cycle @ fmt_T E x) (writeTuple_loop E pkg tup v i vis buf)"
    and "revisits_signature E pkg x vis ps rs v
          \<Longrightarrow> marks (cycle @ fmt_T E x) (writeSignature E pkg ps rs v vis buf)"
proof (induct arbitrary: buf and tags buf and buf and n buf and buf and buf
    rule: revisits_revisits_fields_revisits_methods_revisits_embeddeds_revisits_tuple_revisits_signature.inducts)
  case (here vis)
  then show ?case
    by (simp add: writeType_on_path contains_appendR contains_self)
next
  case (in_Array a vis l e)
  then show ?case by (simp add: writeType_Array)
next
  case (in_Slice a vis e)
  then show ?case by (simp add: writeType_Slice)
next
  case (in_Pointer a vis e)
  then show ?case by (simp add: writeType_Pointer)
next
  case (in_Chan a vis d e)
  from in_Chan(3) have ok: "\<not> (d \<noteq> SendRecv \<and> d \<noteq> SendOnly \<and> d \<noteq> RecvOnly)" by simp
  show ?case
    unfolding writeType_Chan[OF in_Chan(1,2)] case_and_then if_not_P[OF ok]
    by (intro marks_and_then_first in_Chan(5)) (auto intro: contains_appendL)
next
  case (in_Map_key a vis k e)
  from in_Map_key(1,2) show ?case
    unfolding writeType_Map[OF in_Map_key(1,2)] case_and_then
    by (intro marks_and_then_first in_Map_key(4) keeps) (simp_all add: contains_appendL)
next
  case (in_Map_elem a vis k e s)
  show ?case
    unfolding writeType_Map[OF in_Map_elem(1,2)] case_and_then
      at_buffer(1)[OF in_Map_elem(3)]
    by (simp add: in_Map_elem(5))
next
  case (in_Struct a vis fs tags)
  show ?case
    unfolding writeType_Struct[OF in_Struct(1,2)] case_and_then
    by (intro marks_and_then_first in_Struct(4)) (simp_all add: contains_appendL)
next
  case (in_Tuple a vis tup)
  show ?case
    unfolding writeType_Tuple[OF in_Tuple(1,2)] writeTuple_step
    by (intro marks_and_always_first in_Tuple(4)) (simp_all add: contains_appendL)
next
  case (in_Signature a vis ps rs v)
  then show ?case by (simp add: writeType_Signature)
next
  case (in_Interface_method a vis ms es)
  show ?case
    unfolding writeType_Interface[OF in_Interface_method(1,2)] case_and_then
    by (intro marks_and_then_first in_Interface_method(4) keeps) (simp_all add: contains_appendL)
next
  case (in_Interface_embedded a vis ms es s)
  show ?case
    unfolding writeType_Interface[OF in_Interface_embedded(1,2)] case_and_then
      at_buffer(2)[OF in_Interface_embedded(3)]
    by (simp, intro marks_and_then_first in_Interface_embedded(5)) (simp_all add: contains_appendL)
next
  case (field_here i fs vis)
  show ?case
    unfolding writeType_fields_step[OF field_here(1)]
    by (intro marks_and_then_first field_here(3) keeps contains_heads) simp_all
next
  case (field_later i fs vis s)
  show ?case
    unfolding writeType_fields_step[OF field_later(1)] at_buffer(1)[OF field_later(2)]
    using field_later(4) by simp
next
  case (method_here i ms g ps rs v vis)
  have sg: "as_Signature E (FuncType (ms ! i)) = Some (ps, rs, v)"
    using method_here(2,3) by (simp add: as_Signature_def)
  show ?case
    unfolding writeType_methods_step[OF method_here(1) sg]
    by (intro marks_and_then_first method_here(5) keeps) simp_all
next
  case (method_later i ms g ps rs v vis s)
  have sg: "as_Signature E (FuncType (ms ! i)) = Some (ps, rs, v)"
    using method_later(2,3) by (simp add: as_Signature_def)
  show ?case
    unfolding writeType_methods_step[OF method_later(1) sg] at_buffer(4)[OF method_later(4)]
    using method_later(6) by simp
next
  case (embedded_here i es vis)
  show ?case
    unfolding writeType_embeddeds_step[OF embedded_here(1)]
    by (intro marks_and_then_first embedded_here(3) keeps) simp_all
next
  case (embedded_later i es vis s)
  show ?case
    unfolding writeType_embeddeds_step[OF embedded_later(1)] at_buffer(1)[OF embedded_later(2)]
    using embedded_later(4) by simp
next
  case (param_here i tup variadic vis)
  show ?case
    unfolding writeTuple_loop_plain[OF param_here(1,2)]
    by (intro marks_and_always_first param_here(4) keeps) simp_all
next
  case (param_later i tup variadic vis s err)
  show ?case
    unfolding writeTuple_loop_plain[OF param_later(1,2)] at_buffer(1)[OF param_later(3)]
    using param_later(5) by simp
next
  case (param_last_slice i tup variadic c e vis)
  have sl: "as_Slice E (Type (tup ! i)) = Some e"
    using param_last_slice(3,4) by (simp add: as_Slice_def)
  show ?case
    unfolding writeTuple_loop_slice[OF param_last_slice(1,2) sl]
    by (intro marks_and_always_first param_last_slice(6) keeps) simp_all
next
  case (param_last_string i tup variadic u vis)
  show ?case
    unfolding writeTuple_loop_string[OF param_last_string(1-5)]
    by (intro marks_and_always_first param_last_string(7) keeps) (simp_all add: contains_appendL)
next
  case (in_params vis ps v rs)
  have tp: "marks (cycle @ fmt_T E x) (writeTuple E pkg ps v vis buf)"
    unfolding writeTuple_step
    by (intro marks_and_always_first in_params(2)) (simp_all add: contains_appendL)
  show ?case
    unfolding writeSignature_step
    by (intro marks_and_always_first tp) (auto intro!: keeps intro: contains_appendL)
next
  case (in_result ps v vis s err rs)
  then show ?case
    unfolding writeSignature_step at_buffer(3)[OF in_result(1)]
    by simp
next
  case (in_results ps v vis s err rs)
  from in_results(2,3) show ?case
    unfolding writeSignature_step at_buffer(3)[OF in_results(1)] writeTuple_step[of E pkg rs]
    by (auto intro!: marks_and_always_first in_results(5) intro: contains_appendL)
qed

section \<open>An error comes back with what was written\<close>

lemma writeType_methods_prefix:
  "writeType_methods E pkg ms i visited buf = Inr (b, e) \<Longrightarrow> \<exists>s. b = buf @ s"
  using writeType_methods_from_empty[of E pkg ms i visited buf] by (auto simp: app_Inr_iff)

lemma writeType_embeddeds_prefix:
  "writeType_embeddeds E pkg es n i visited buf = Inr (b, e) \<Longrightarrow> \<exists>s. b = buf @ s"
  using writeType_embeddeds_from_empty[of E pkg es n i visited buf] by (auto simp: app_Inr_iff)

lemma and_then_error:
  "and_then r f = Inr (s, Some err) \<longleftrightarrow>
     r = Inr (s, Some err) \<or> (\<exists>b. r = Inr (b, None) \<and> f b = Inr (s, Some err))"
  by (auto simp add: and_then_def split: sum.splits prod.splits option.splits)

lemma and_always_error:
  "and_always r f = Inr (s, Some err) \<longleftrightarrow> (\<exists>b e. r = Inr (b, e) \<and> f b = Inr (s, Some err))"
  by (auto simp add: and_always_def split: sum.splits prod.splits)

lemma error_leaves_output:
  assumes "writeType E pkg (Ref a) [] [] = Inr (s, Some err)" and "deref E a = Some n"
    and "\<forall>nm. n \<noteq> Basic Invalid nm"
  shows "s \<noteq> []"
proof (cases n)
  case (Basic k nm)
  with assms show ?thesis by (auto simp add: writeType_Basic split: if_splits)
next
  case (Array l e)
  with assms show ?thesis by (auto simp add: writeType_Array dest: writeType_prefix)
next
  case (Slice e)
  with assms show ?thesis by (auto simp add: writeType_Slice dest: writeType_prefix)
next
  case (Struct fs tags)
  with assms show ?thesis
    by (auto simp add: writeType_Struct case_and_then and_then_error dest: writeType_fields_prefix)
next
  case (Pointer e)
  with assms show ?thesis by (auto simp add: writeType_Pointer dest: writeType_prefix)
next
  case (Tuple tup)
  with assms show ?thesis
    by (auto simp add: writeType_Tuple writeTuple_step and_always_error)
next
  case (Signature ps rs v)
  with assms show ?thesis
    by (auto simp add: writeType_Signature dest: writeSignature_prefix)
next
  case (Interface ms es)
  with assms show ?thesis
    by (auto simp add: writeType_Interface case_and_then and_then_error
        dest!: writeType_methods_prefix writeType_embeddeds_prefix)
next
  case (Map k e)
  with assms show ?thesis
    by (auto simp add: writeType_Map case_and_then and_then_error dest!: writeType_prefix)
next
  case (Chan d e)
  with assms show ?thesis
    by (auto simp add: writeType_Chan case_and_then and_then_error
        split: if_splits dest!: writeType_prefix)
next
  case (Named ow nm u)
  with assms show ?thesis by (auto simp add: writeType_Named split: if_splits)
next
  case (Opaque tg st u)
  with assms show ?thesis by (auto simp add: writeType_Opaque)
qed

section \<open>The fields of a struct\<close>

lemma join_Cons: "join s (x # xs) = x @ concat (map (\<lambda>y. s @ y) xs)"
  by (induct xs arbitrary: x) simp_all

lemma concat_sep_upt:
  "concat (map (\<lambda>j. (if 0 < j then s else []) @ f j) [0..<n]) = join s (map f [0..<n])"
proof (cases n)
  case 0
  then show ?thesis by simp
next
  case (Suc k)
  have "concat (map (\<lambda>j. (if 0 < j then s else []) @ f j) [Suc 0..<Suc k])
      = concat (map (\<lambda>j. s @ f j) [Suc 0..<Suc k])"
    by (rule arg_cong[where f = concat], rule map_cong) (simp_all del: upt_Suc)
  then show ?thesis
    unfolding Suc upt_conv_Cons[OF zero_less_Suc] list.map join_Cons
    by (simp add: o_def del: upt_Suc)
qed

lemma writeType_fields_all:
  assumes "\<forall>j<length fs. writeType E pkg (Type (fs ! j)) vis [] = Inr (ts ! j, None)"
    and "i \<le> length fs"
  shows "writeType_fields E pkg fs tags i vis buf =
     Inr (buf @ concat (map (\<lambda>j. (if 0 < j then ''; '' else [])
                                  @ (if Anonymous (fs ! j) then [] else Name (fs ! j) @ '' '')
                                  @ ts ! j
                                  @ (if j < length tags \<and> tags ! j \<noteq> []
                                     then '' '' @ quote E (tags ! j) else []))
                         [i..<length fs]), None)"
  using assms(2)
proof (induct "length fs - i" arbitrary: i buf)
  case 0
  then show ?case by (simp add: writeType_fields_done)
next
  case (Suc k)
  then have lt: "i < length fs" and k: "k = length fs - (i + 1)" and le: "i + 1 \<le> length fs"
    by simp_all
  from assms(1) lt
  have wt: "writeType E pkg (Type (fs ! i)) vis b = Inr (b @ ts ! i, None)" for b
    by (simp add: at_buffer(1))
  show ?case
    unfolding writeType_fields_step[OF lt] wt and_then_simps Suc(1)[OF k le]
      upt_conv_Cons[OF lt]
    by (simp add: field_head_def field_tail_def Tag_def)
qed

subsection \<open>The output depends on the reachable nodes only\<close>

lemma sg_deref: "same_graph E E' S \<Longrightarrow> a \<in> S \<Longrightarrow> deref E' a = deref E a"
  by (simp add: same_graph_def)

lemma sg_child:
  "same_graph E E' S \<Longrightarrow> a \<in> S \<Longrightarrow> deref E a = Some n \<Longrightarrow> c \<in> set (refs_of n) \<Longrightarrow> within S c"
  by (auto simp add: same_graph_def)

lemma sg_tests:
  assumes "same_graph E E' S" and "within S t"
  shows "as_Slice E' t = as_Slice E t" and "as_Basic E' t = as_Basic E t"
    and "as_Chan E' t = as_Chan E t" and "as_Signature E' t = as_Signature E t"
    and "Underlying E' t = Underlying E t" and "fmt_T E' t = fmt_T E t"
  using assms
  by (auto simp add: as_Slice_def as_Basic_def as_Chan_def as_Signature_def Underlying_def
      fmt_T_def within_def sg_deref split: type_ref.splits)

lemma sg_Underlying:
  assumes "same_graph E E' S" and "within S t" and "Underlying E t = Inr u"
  shows "within S u"
proof (cases t)
  case TNil
  with assms show ?thesis by (simp add: Underlying_def)
next
  case (Ref a)
  with assms(2) have a: "a \<in> S" by (simp add: within_def)
  from assms(3) Ref obtain n where n: "deref E a = Some n"
    by (auto simp add: Underlying_def split: option.splits)
  show ?thesis
    using assms(3) Ref n sg_child[OF assms(1) a n] a
    by (cases n) (auto simp add: Underlying_def within_def)
qed

lemma sg_Slice:
  assumes "same_graph E E' S" and "within S t" and "as_Slice E t = Some e"
  shows "within S e"
proof -
  from assms(3) obtain a where t: "t = Ref a" and n: "deref E a = Some (Slice e)"
    by (auto simp add: as_Slice_def split: type_ref.splits option.splits node.splits)
  from assms(2) t have "a \<in> S" by (simp add: within_def)
  from sg_child[OF assms(1) this n] show ?thesis by simp
qed

lemma sg_Signature:
  assumes "same_graph E E' S" and "within S t" and "as_Signature E t = Some (ps, rs, v)"
  shows "(\<forall>j<length ps. within S (Type (ps ! j))) \<and> (\<forall>j<length rs. within S (Type (rs ! j)))"
proof -
  from assms(3) obtain a where t: "t = Ref a" and n: "deref E a = Some (Signature ps rs v)"
    by (auto simp add: as_Signature_def split: type_ref.splits option.splits node.splits)
  from assms(2) t have "a \<in> S" by (simp add: within_def)
  from sg_child[OF assms(1) this n] show ?thesis by simp
qed

lemma and_then_cong:
  "r = r' \<Longrightarrow> (\<And>b. r' = Inr (b, None) \<Longrightarrow> f b = g b) \<Longrightarrow> and_then r f = and_then r' g"
  by (auto simp add: and_then_def split: sum.splits prod.splits option.splits)

lemma and_always_cong:
  "r = r' \<Longrightarrow> (\<And>b e. r' = Inr (b, e) \<Longrightarrow> f b = g b) \<Longrightarrow> and_always r f = and_always r' g"
  by (auto simp add: and_always_def split: sum.splits prod.splits)


lemma sg_field_tail: "same_graph E E' S \<Longrightarrow> field_tail E' tags i b = field_tail E tags i b"
  by (simp add: field_tail_def same_graph_def)

lemma same_graph_writeType:
    "\<forall>E' S. same_graph E E' S \<longrightarrow> within S t \<longrightarrow> (\<forall>w\<in>set visited. within S w) \<longrightarrow>
       writeType E' pkg t visited buf = writeType E pkg t visited buf"
  and same_graph_fields:
    "\<forall>E' S. same_graph E E' S \<longrightarrow> (\<forall>j<length fs. within S (Type (fs ! j))) \<longrightarrow>
       (\<forall>w\<in>set visited. within S w) \<longrightarrow>
       writeType_fields E' pkg fs tags i visited buf = writeType_fields E pkg fs tags i visited buf"
  and same_graph_methods:
    "\<forall>E' S. same_graph E E' S \<longrightarrow> (\<forall>j<length ms. within S (FuncType (ms ! j))) \<longrightarrow>
       (\<forall>w\<in>set visited. within S w) \<longrightarrow>
       writeType_methods E' pkg ms i visited buf = writeType_methods E pkg ms i visited buf"
  and same_graph_embeddeds:
    "\<forall>E' S. same_graph E E' S \<longrightarrow> (\<forall>j<length es. within S (es ! j)) \<longrightarrow>
       (\<forall>w\<in>set visited. within S w) \<longrightarrow>
       writeType_embeddeds E' pkg es n i visited buf = writeType_embeddeds E pkg es n i visited buf"
  and same_graph_tuple_loop:
    "\<forall>E' S. same_graph E E' S \<longrightarrow> (\<forall>j<length tup. within S (Type (tup ! j))) \<longrightarrow>
       (\<forall>w\<in>set visited. within S w) \<longrightarrow>
       writeTuple_loop E' pkg tup variadic i visited buf
         = writeTuple_loop E pkg tup variadic i visited buf"
  and same_graph_tuple:
    "\<forall>E' S. same_graph E E' S \<longrightarrow> (\<forall>j<length tup. within S (Type (tup ! j))) \<longrightarrow>
       (\<forall>w\<in>set visited. within S w) \<longrightarrow>
       writeTuple E' pkg tup variadic visited buf = writeTuple E pkg tup variadic visited buf"
  and same_graph_signature:
    "\<forall>E' S. same_graph E E' S \<longrightarrow>
       (\<forall>j<length ps. within S (Type (ps ! j))) \<and> (\<forall>j<length rs. within S (Type (rs ! j))) \<longrightarrow>
       (\<forall>w\<in>set visited. within S w) \<longrightarrow>
       writeSignature E' pkg ps rs variadic visited buf
         = writeSignature E pkg ps rs variadic visited buf"
proof (induct E pkg t visited buf and E pkg fs tags i visited buf and E pkg ms i visited buf
    and E pkg es n i visited buf and E pkg tup variadic i visited buf
    and E pkg tup variadic visited buf and E pkg ps rs variadic visited buf
    rule: writeType_writeType_fields_writeType_methods_writeType_embeddeds_writeTuple_loop_writeTuple_writeSignature.induct)
  case (1 E pkg t visited buf)
  show ?case
  proof (intro allI impI)
    fix E' S
    assume sg: "same_graph E E' S" and wt: "within S t" and wv: "\<forall>w\<in>set visited. within S w"
    show "writeType E' pkg t visited buf = writeType E pkg t visited buf"
    proof (cases "t \<in> set visited")
      case True
      then show ?thesis by (simp add: writeType_on_path sg_tests(6)[OF sg wt])
    next
      case False
      show ?thesis
      proof (cases t)
        case TNil
        with False show ?thesis by (simp add: writeType_TNil)
      next
        case (Ref a)
        from wt Ref have aS: "a \<in> S" by (simp add: within_def)
        from False Ref have nv: "Ref a \<notin> set visited" by simp
        note d' = sg_deref[OF sg aS]
        from wv aS have wv': "\<forall>w\<in>set (visited @ [Ref a]). within S w"
          by (simp add: within_def)
        show ?thesis
        proof (cases "deref E a")
          case None
          with nv d' show ?thesis unfolding Ref by (simp add: writeType_dangling)
        next
          case (Some n)
          note ctx = False Ref Some
          note child = sg_child[OF sg aS Some]
          show ?thesis
          proof (cases n)
            case (Basic k nm)
            with nv d' Some show ?thesis unfolding Ref by (simp add: writeType_Basic)
          next
            case (Array l e)
            from child Array have we: "within S e" by simp
            note ih = 1(1)[OF ctx Array, THEN spec, THEN spec, THEN mp, THEN mp, THEN mp, OF sg we wv'[folded Ref], unfolded Ref]
            from nv d' Some Array ih show ?thesis unfolding Ref by (simp add: writeType_Array)
          next
            case (Slice e)
            from child Slice have we: "within S e" by simp
            note ih = 1(2)[OF ctx Slice, THEN spec, THEN spec, THEN mp, THEN mp, THEN mp, OF sg we wv'[folded Ref], unfolded Ref]
            from nv d' Some Slice ih show ?thesis unfolding Ref by (simp add: writeType_Slice)
          next
            case (Struct fs tags)
            from child Struct have wf: "\<forall>j<length fs. within S (Type (fs ! j))" by simp
            note ih = 1(3)[OF ctx Struct, THEN spec, THEN spec, THEN mp, THEN mp, THEN mp, OF sg wf wv'[folded Ref], unfolded Ref]
            from nv d' Some Struct ih show ?thesis unfolding Ref by (simp add: writeType_Struct)
          next
            case (Pointer e)
            from child Pointer have we: "within S e" by simp
            note ih = 1(4)[OF ctx Pointer, THEN spec, THEN spec, THEN mp, THEN mp, THEN mp, OF sg we wv'[folded Ref], unfolded Ref]
            from nv d' Some Pointer ih show ?thesis unfolding Ref by (simp add: writeType_Pointer)
          next
            case (Tuple tup)
            from child Tuple have wf: "\<forall>j<length tup. within S (Type (tup ! j))" by simp
            note ih = 1(5)[OF ctx Tuple, THEN spec, THEN spec, THEN mp, THEN mp, THEN mp, OF sg wf wv'[folded Ref], unfolded Ref]
            from nv d' Some Tuple ih show ?thesis unfolding Ref by (simp add: writeType_Tuple)
          next
            case (Signature ps rs v)
            from child Signature
            have wf: "(\<forall>j<length ps. within S (Type (ps ! j))) \<and> (\<forall>j<length rs. within S (Type (rs ! j)))"
              by simp
            note ih = 1(6)[OF ctx Signature, THEN spec, THEN spec, THEN mp, THEN mp, THEN mp, OF sg wf wv'[folded Ref], unfolded Ref]
            from nv d' Some Signature ih show ?thesis
              unfolding Ref by (simp add: writeType_Signature)
          next
            case (Interface ms es)
            from child Interface have wm: "\<forall>j<length ms. within S (FuncType (ms ! j))"
              and we: "\<forall>j<length es. within S (es ! j)"
              by (simp_all add: nth_append ball_Un)
            note ih1 = 1(7)[OF ctx Interface, THEN spec, THEN spec, THEN mp, THEN mp, THEN mp, OF sg wm wv'[folded Ref], unfolded Ref]
            note ih2 = 1(8)[OF ctx Interface _ refl refl, THEN spec, THEN spec, THEN mp, THEN mp, THEN mp, OF _ sg we wv'[folded Ref],
                unfolded Ref]
            have "writeType E' pkg (Ref a) visited buf = writeType E pkg (Ref a) visited buf"
              unfolding writeType_Interface[OF nv Some[unfolded Interface]]
                writeType_Interface[OF nv d'[unfolded Some Interface]] case_and_then
              by (rule and_then_cong[OF ih1]) (rule and_then_cong[OF ih2], simp_all)
            then show ?thesis unfolding Ref .
          next
            case (Map k e)
            from child Map have wk: "within S k" and we: "within S e" by simp_all
            note ih1 = 1(9)[OF ctx Map, THEN spec, THEN spec, THEN mp, THEN mp, THEN mp, OF sg wk wv'[folded Ref], unfolded Ref]
            note ih2 = 1(10)[OF ctx Map _ refl refl, THEN spec, THEN spec, THEN mp, THEN mp, THEN mp, OF _ sg we wv'[folded Ref],
                unfolded Ref]
            have "writeType E' pkg (Ref a) visited buf = writeType E pkg (Ref a) visited buf"
              unfolding writeType_Map[OF nv Some[unfolded Map]]
                writeType_Map[OF nv d'[unfolded Some Map]] case_and_then
              by (rule and_then_cong[OF ih1]) (erule ih2)
            then show ?thesis unfolding Ref .
          next
            case (Chan d e)
            from child Chan have we: "within S e" by simp
            show ?thesis
            proof (cases "d \<noteq> SendRecv \<and> d \<noteq> SendOnly \<and> d \<noteq> RecvOnly")
              case True
              with nv d' Some Chan show ?thesis unfolding Ref by (simp add: writeType_Chan)
            next
              case ok: False
              note ih = 1(11)[OF ctx Chan ok, THEN spec, THEN spec, THEN mp, THEN mp, THEN mp, OF sg we wv'[folded Ref], unfolded Ref]
              have "writeType E' pkg (Ref a) visited buf = writeType E pkg (Ref a) visited buf"
                unfolding writeType_Chan[OF nv Some[unfolded Chan]]
                  writeType_Chan[OF nv d'[unfolded Some Chan]] case_and_then
                  sg_tests(3)[OF sg we] if_not_P[OF ok]
                by (rule and_then_cong[OF ih]) simp
              then show ?thesis unfolding Ref .
            qed
          next
            case (Named ow nm u)
            from sg have "pkg_name E' = pkg_name E" by (simp add: same_graph_def)
            with nv d' Some Named show ?thesis unfolding Ref by (simp add: writeType_Named)
          next
            case (Opaque tg str u)
            with nv d' Some show ?thesis unfolding Ref by (simp add: writeType_Opaque)
          qed
        qed
      qed
    qed
  qed
next
  case (2 E pkg fs tags i visited buf)
  show ?case
  proof (intro allI impI)
    fix E' S
    assume sg: "same_graph E E' S" and wf: "\<forall>j<length fs. within S (Type (fs ! j))"
      and wv: "\<forall>w\<in>set visited. within S w"
    show "writeType_fields E' pkg fs tags i visited buf = writeType_fields E pkg fs tags i visited buf"
    proof (cases "i < length fs")
      case True
      note ih1 = 2(1)[OF True, THEN spec, THEN spec, THEN mp, THEN mp, THEN mp, OF sg wf[rule_format, OF True] wv]
      note ih2 = 2(2)[OF True _ refl refl, THEN spec, THEN spec, THEN mp, THEN mp, THEN mp, OF _ sg wf wv]
      show ?thesis
        unfolding writeType_fields_step[OF True] sg_field_tail[OF sg]
        by (rule and_then_cong[OF ih1]) (erule ih2)
    next
      case False
      then show ?thesis by (simp add: writeType_fields_done)
    qed
  qed
next
  case (3 E pkg ms i visited buf)
  show ?case
  proof (intro allI impI)
    fix E' S
    assume sg: "same_graph E E' S" and wf: "\<forall>j<length ms. within S (FuncType (ms ! j))"
      and wv: "\<forall>w\<in>set visited. within S w"
    show "writeType_methods E' pkg ms i visited buf = writeType_methods E pkg ms i visited buf"
    proof (cases "i < length ms")
      case True
      note wi = wf[rule_format, OF True]
      show ?thesis
      proof (cases "as_Signature E (FuncType (ms ! i))")
        case None
        with True sg_tests(4)[OF sg wi] show ?thesis by (simp add: writeType_methods_panic)
      next
        case (Some sgn)
        obtain ps rs v where sgn: "sgn = (ps, rs, v)" by (cases sgn)
        note as = Some[unfolded sgn]
        from sg_tests(4)[OF sg wi] as
        have as': "as_Signature E' (FuncType (ms ! i)) = Some (ps, rs, v)" by simp
        note wsig = sg_Signature[OF sg wi as]
        note ih1 = 3(1)[OF True as refl refl, THEN spec, THEN spec, THEN mp, THEN mp, THEN mp, OF sg wsig wv]
        note ih2 = 3(2)[OF True as refl refl _ refl refl, THEN spec, THEN spec, THEN mp, THEN mp, THEN mp, OF _ sg wf wv]
        show ?thesis
          unfolding writeType_methods_step[OF True as] writeType_methods_step[OF True as']
          by (rule and_then_cong[OF ih1]) (erule ih2)
      qed
    next
      case False
      then show ?thesis by (simp add: writeType_methods_done)
    qed
  qed
next
  case (4 E pkg es n i visited buf)
  show ?case
  proof (intro allI impI)
    fix E' S
    assume sg: "same_graph E E' S" and wf: "\<forall>j<length es. within S (es ! j)"
      and wv: "\<forall>w\<in>set visited. within S w"
    show "writeType_embeddeds E' pkg es n i visited buf = writeType_embeddeds E pkg es n i visited buf"
    proof (cases "i < length es")
      case True
      note ih1 = 4(1)[OF True, THEN spec, THEN spec, THEN mp, THEN mp, THEN mp, OF sg wf[rule_format, OF True] wv]
      note ih2 = 4(2)[OF True _ refl refl, THEN spec, THEN spec, THEN mp, THEN mp, THEN mp, OF _ sg wf wv]
      show ?thesis
        unfolding writeType_embeddeds_step[OF True]
        by (rule and_then_cong[OF ih1]) (erule ih2)
    next
      case False
      then show ?thesis by (simp add: writeType_embeddeds_done)
    qed
  qed
next
  case (5 E pkg tup variadic i visited buf)
  show ?case
  proof (intro allI impI)
    fix E' S
    assume sg: "same_graph E E' S" and wf: "\<forall>j<length tup. within S (Type (tup ! j))"
      and wv: "\<forall>w\<in>set visited. within S w"
    show "writeTuple_loop E' pkg tup variadic i visited buf
        = writeTuple_loop E pkg tup variadic i visited buf"
    proof (cases "i < length tup")
      case False
      then show ?thesis by (simp add: writeTuple_loop_done)
    next
      case True
      note wi = wf[rule_format, OF True]
      show ?thesis
      proof (cases "variadic \<and> i = length tup - 1")
        case False
        note ih1 = 5(5)[OF True False, THEN spec, THEN spec, THEN mp, THEN mp, THEN mp, OF sg wi wv]
        note ih2 = 5(6)[OF True False _ refl, THEN spec, THEN spec, THEN mp, THEN mp, THEN mp, OF _ sg wf wv]
        show ?thesis
          unfolding writeTuple_loop_plain[OF True False]
          by (rule and_always_cong[OF ih1]) (erule ih2)
      next
        case last: True
        show ?thesis
        proof (cases "as_Slice E (Type (tup ! i))")
          case (Some elem)
          from sg_tests(1)[OF sg wi] Some
          have sl': "as_Slice E' (Type (tup ! i)) = Some elem" by simp
          note we = sg_Slice[OF sg wi Some]
          note ih1 = 5(3)[OF True last Some, THEN spec, THEN spec, THEN mp, THEN mp, THEN mp, OF sg we wv]
          note ih2 = 5(4)[OF True last Some _ refl, THEN spec, THEN spec, THEN mp, THEN mp, THEN mp, OF _ sg wf wv]
          show ?thesis
            unfolding writeTuple_loop_slice[OF True last Some] writeTuple_loop_slice[OF True last sl']
            by (rule and_always_cong[OF ih1]) (erule ih2)
        next
          case None
          from sg_tests(1)[OF sg wi] None
          have sl': "as_Slice E' (Type (tup ! i)) = None" by simp
          show ?thesis
          proof (cases "Underlying E (Type (tup ! i))")
            case (Inl p)
            from sg_tests(5)[OF sg wi] Inl
            have un': "Underlying E' (Type (tup ! i)) = Inl p" by simp
            show ?thesis
              unfolding writeTuple_loop_no_underlying[OF True last None Inl]
                writeTuple_loop_no_underlying[OF True last sl' un'] ..
          next
            case (Inr u)
            from sg_tests(5)[OF sg wi] Inr
            have un': "Underlying E' (Type (tup ! i)) = Inr u" by simp
            note wu = sg_Underlying[OF sg wi Inr]
            note bas = sg_tests(2)[OF sg wu]
            show ?thesis
            proof (cases "as_Basic E u = Some String")
              case False
              with bas have ns': "as_Basic E' u \<noteq> Some String" by simp
              show ?thesis
                unfolding writeTuple_loop_not_string[OF True last None Inr False]
                  writeTuple_loop_not_string[OF True last sl' un' ns'] ..
            next
              case str: True
              with bas have str': "as_Basic E' u = Some String" by simp
              from str have nn: "\<not> as_Basic E u \<noteq> Some String" by simp
              note ih1 = 5(1)[OF True last None Inr nn, THEN spec, THEN spec, THEN mp, THEN mp, THEN mp, OF sg wi wv]
              note ih2 = 5(2)[OF True last None Inr nn _ refl, THEN spec, THEN spec, THEN mp, THEN mp, THEN mp, OF _ sg wf wv]
              show ?thesis
                unfolding writeTuple_loop_string[OF True last None Inr str]
                  writeTuple_loop_string[OF True last sl' un' str']
                by (rule and_always_cong[OF ih1]) (erule ih2)
            qed
          qed
        qed
      qed
    qed
  qed
next
  case (6 E pkg tup variadic visited buf)
  show ?case
  proof (intro allI impI)
    fix E' S
    assume sg: "same_graph E E' S" and wf: "\<forall>j<length tup. within S (Type (tup ! j))"
      and wv: "\<forall>w\<in>set visited. within S w"
    note ih = 6[THEN spec, THEN spec, THEN mp, THEN mp, THEN mp, OF sg wf wv]
    show "writeTuple E' pkg tup variadic visited buf = writeTuple E pkg tup variadic visited buf"
      unfolding writeTuple_step by (rule and_always_cong[OF ih]) simp
  qed
next
  case (7 E pkg ps rs variadic visited buf)
  show ?case
  proof (intro allI impI)
    fix E' S
    assume sg: "same_graph E E' S"
      and wf: "(\<forall>j<length ps. within S (Type (ps ! j))) \<and> (\<forall>j<length rs. within S (Type (rs ! j)))"
      and wv: "\<forall>w\<in>set visited. within S w"
    from wf have wp: "\<forall>j<length ps. within S (Type (ps ! j))"
      and wr: "\<forall>j<length rs. within S (Type (rs ! j))" by simp_all
    note ih1 = 7(1)[THEN spec, THEN spec, THEN mp, THEN mp, THEN mp, OF sg wp wv]
    have ih2: "writeType E' pkg (Type (rs ! 0)) visited (b @ '' '')
        = writeType E pkg (Type (rs ! 0)) visited (b @ '' '')"
      if "writeTuple E pkg ps variadic visited buf = Inr (b, e)" "length rs \<noteq> 0"
        "length rs = 1 \<and> Name (rs ! 0) = []" for b e
      using 7(2)[OF that(1) refl that(2,3), THEN spec, THEN spec, THEN mp, THEN mp, THEN mp, OF sg _ wv] wr that(2) by simp
    have ih3: "writeTuple E' pkg rs False visited (b @ '' '')
        = writeTuple E pkg rs False visited (b @ '' '')"
      if "writeTuple E pkg ps variadic visited buf = Inr (b, e)" "length rs \<noteq> 0"
        "\<not> (length rs = 1 \<and> Name (rs ! 0) = [])" for b e
      using 7(3)[OF that(1) refl that(2,3), THEN spec, THEN spec, THEN mp, THEN mp, THEN mp, OF sg wr wv] .
    show "writeSignature E' pkg ps rs variadic visited buf
        = writeSignature E pkg ps rs variadic visited buf"
      unfolding writeSignature_step
      by (rule and_always_cong[OF ih1]) (use ih2 ih3 in auto)
  qed
qed

section \<open>The cycle guard\<close>

text \<open>
  C1.  Let \<open>c\<close> be the address of a node and \<open>tag\<close> the name of its dynamic type.
  A call of \<open>writeType\<close> on that node while it is on the list of the types being
  written writes the three bytes of the cycle marker and the tag, and returns at once
  with no error.  Whenever rendering a type \<open>t\<close> reaches the node again in this way,
  in any type graph, then what \<open>writeType\<close> and \<open>typeString\<close> return for \<open>t\<close> holds the
  marker followed by the tag (they return unless a later part of the graph makes them
  panic).  That \<open>writeType\<close> ends on every graph is its termination proof: each call
  into a node takes one address off the finitely many that are not yet on the list.
\<close>

theorem C1_cycle_marker:
  assumes "deref E c = Some n"
    and "tag = (case n of
                  Basic k nm \<Rightarrow> ''*types.Basic''
                | Array l e \<Rightarrow> ''*types.Array''
                | Slice e \<Rightarrow> ''*types.Slice''
                | Struct fs tags \<Rightarrow> ''*types.Struct''
                | Pointer e \<Rightarrow> ''*types.Pointer''
                | Tuple tup \<Rightarrow> ''*types.Tuple''
                | Signature ps rs v \<Rightarrow> ''*types.Signature''
                | Interface ms es \<Rightarrow> ''*types.Interface''
                | Map k e \<Rightarrow> ''*types.Map''
                | Chan d e \<Rightarrow> ''*types.Chan''
                | Named ow nm u \<Rightarrow> ''*types.Named''
                | Opaque tg st u \<Rightarrow> tg)"
  shows "(Ref c \<in> set vis \<longrightarrow>
            writeType E pkg (Ref c) vis buf
              = Inr (buf @ [CHR 0xE2, CHR 0x97, CHR 0x8B] @ tag, None))
       \<and> (revisits E pkg (Ref c) vis' t \<longrightarrow>
            (case writeType E pkg t vis' buf' of
               Inl p \<Rightarrow> True
             | Inr (b, err) \<Rightarrow>
                 (\<exists>pre post. b = buf' @ pre @ [CHR 0xE2, CHR 0x97, CHR 0x8B] @ tag @ post)))
       \<and> (revisits E pkg (Ref c) [] t \<longrightarrow>
            (case typeString E pkg t of
               Inl p \<Rightarrow> True
             | Inr (s, err) \<Rightarrow>
                 (\<exists>pre post. s = pre @ [CHR 0xE2, CHR 0x97, CHR 0x8B] @ tag @ post)))"
proof -
  have m: "cycle @ fmt_T E (Ref c) = [CHR 0xE2, CHR 0x97, CHR 0x8B] @ tag"
    using assms by (cases n) (simp_all add: cycle_def fmt_T_def)
  have general: "case writeType E pkg t w b0 of
               Inl p \<Rightarrow> True
             | Inr (b, err) \<Rightarrow>
                 (\<exists>pre post. b = b0 @ pre @ [CHR 0xE2, CHR 0x97, CHR 0x8B] @ tag @ post)"
    if "revisits E pkg (Ref c) w t" for w b0
  proof (cases "writeType E pkg t w []")
    case (Inl p)
    then show ?thesis
      using writeType_from_empty[of E pkg t w b0] by simp
  next
    case (Inr se)
    obtain s err where se: "se = (s, err)" by (cases se)
    from revisits_marks(1)[OF that, of "[]"] Inr se
    obtain pre post where "s = pre @ ([CHR 0xE2, CHR 0x97, CHR 0x8B] @ tag) @ post"
      unfolding m by (auto simp add: contains_def)
    with Inr se show ?thesis
      using writeType_from_empty[of E pkg t w b0] by auto
  qed
  have here: "Ref c \<in> set vis \<longrightarrow>
            writeType E pkg (Ref c) vis buf
              = Inr (buf @ [CHR 0xE2, CHR 0x97, CHR 0x8B] @ tag, None)"
    using m by (simp add: writeType_on_path)
  have at_root: "case typeString E pkg t of
               Inl p \<Rightarrow> True
             | Inr (s, err) \<Rightarrow>
                 (\<exists>pre post. s = pre @ [CHR 0xE2, CHR 0x97, CHR 0x8B] @ tag @ post)"
    if "revisits E pkg (Ref c) [] t"
    using general[OF that, of "[]"] unfolding typeString_def append_Nil .
  from here general[of vis' buf'] at_root show ?thesis by blast
qed

lemma revisits_E_cycle: "revisits E_cycle None (Ref 1) [] (Ref 1)"
proof -
  let ?fs = "[\<lparr>Name = ''next'', Type = Ref 2, Anonymous = False\<rparr>,
              \<lparr>Name = ''v'', Type = Ref 0, Anonymous = False\<rparr>]"
  have "revisits E_cycle None (Ref 1) [Ref 1, Ref 2] (Ref 1)"
    by (rule here) simp
  then have "revisits E_cycle None (Ref 1) ([Ref 1] @ [Ref 2]) (Ref 1)" by simp
  then have "revisits E_cycle None (Ref 1) [Ref 1] (Ref 2)"
    by (rule in_Pointer[rotated 2]) (simp_all add: E_cycle_def deref_def)
  then have "revisits E_cycle None (Ref 1) [Ref 1] (Type (?fs ! 0))" by simp
  then have "revisits_fields E_cycle None (Ref 1) ([] @ [Ref 1]) ?fs 0"
    by (intro field_here) simp_all
  then show ?thesis
    by (rule in_Struct[rotated 2, where tags = "[]"]) (simp_all add: E_cycle_def deref_def)
qed

theorem C1_cycle_marker_witness:
  "deref E_cycle 1 = Some (Struct [\<lparr>Name = ''next'', Type = Ref 2, Anonymous = False\<rparr>,
                                  \<lparr>Name = ''v'', Type = Ref 0, Anonymous = False\<rparr>] []) \<and>
   Ref 1 \<in> set [Ref 1, Ref 2] \<and>
   writeType E_cycle None (Ref 1) [Ref 1, Ref 2] ''struct{next *''
     = Inr (''struct{next *'' @ [CHR 0xE2, CHR 0x97, CHR 0x8B] @ ''*types.Struct'', None) \<and>
   revisits E_cycle None (Ref 1) [] (Ref 1) \<and>
   typeString E_cycle None (Ref 1)
     = Inr (''struct{next *'' @ [CHR 0xE2, CHR 0x97, CHR 0x8B] @ ''*types.Struct; v int}'', None) \<and>
   typeString E_cycle None (Ref 3)
     = Inr (''*'' @ [CHR 0xE2, CHR 0x97, CHR 0x8B] @ ''*types.Pointer'', None) \<and>
   typeString E_cycle None (Ref 4)
     = Inr (''interface{'' @ [CHR 0xE2, CHR 0x97, CHR 0x8B] @ ''*types.Interface}'', None) \<and>
   typeString E_cycle None (Ref 5)
     = Inr (''[][4]'' @ [CHR 0xE2, CHR 0x97, CHR 0x8B] @ ''*types.Slice'', None)"
  using C1_cycle_marker[of E_cycle 1
      "Struct [\<lparr>Name = ''next'', Type = Ref 2, Anonymous = False\<rparr>,
               \<lparr>Name = ''v'', Type = Ref 0, Anonymous = False\<rparr>] []" "''*types.Struct''"
      "[Ref 1, Ref 2]" None "''struct{next *''" "[]" "Ref 1" "[]"]
    revisits_E_cycle
  by (simp add: E_cycle_def eval_simps)

section \<open>The last parameter of a variadic signature\<close>

text \<open>
  C2 (as amended).  In a variadic tuple whose last parameter \<open>v\<close> has a slice type, that
  parameter is written, after the separator and its name, as the token \<open>...\<close>
  followed by the element type of the slice; the \<open>[]\<close> of the slice is not written.
  The parameters before it are written as those of a tuple that is not variadic, and an
  error that writing a type returns is dropped.
\<close>

theorem C2_variadic_slice:
  assumes "Type v = Ref c" and "deref E c = Some (Slice elem)"
  shows "writeTuple E pkg (ps @ [v]) True visited buf =
     (case writeTuple_loop E pkg ps False 0 visited (buf @ ''('') of
        Inl p \<Rightarrow> Inl p
      | Inr (b, err) \<Rightarrow>
          (case writeType E pkg elem visited [] of
             Inl p \<Rightarrow> Inl p
           | Inr (s, err') \<Rightarrow>
               Inr (b @ (if ps = [] then [] else '', '')
                      @ (if Name v = [] then [] else Name v @ '' '')
                      @ ''...'' @ s @ '')'', None)))"
proof -
  have sl: "as_Slice E (Type ((ps @ [v]) ! length ps)) = Some elem"
    using assms by (simp add: as_Slice_def)
  have fin: "writeTuple_loop E pkg (ps @ [v]) True (Suc (length ps)) visited = (\<lambda>b. Inr (b, None))"
    by (intro ext) (simp add: writeTuple_loop_done)
  have lt: "length ps < length (ps @ [v])" by simp
  have la: "True \<and> length ps = length (ps @ [v]) - 1" by simp
  have last0: "writeTuple_loop E pkg (ps @ [v]) True (length ps) visited b =
      and_always (writeType E pkg elem visited (tuple_head (length ps) v b @ ''...''))
        (\<lambda>b'. Inr (b', None))" for b
    unfolding writeTuple_loop_slice[OF lt la sl] by (simp add: fin)
  have last: "writeTuple_loop E pkg (ps @ [v]) True (length ps) visited b =
      (case writeType E pkg elem visited [] of
         Inl p \<Rightarrow> Inl p
       | Inr (s, err') \<Rightarrow>
           Inr (b @ (if ps = [] then [] else '', '')
                  @ (if Name v = [] then [] else Name v @ '' '') @ ''...'' @ s, None))" for b
    unfolding last0
      writeType_from_empty[of E pkg elem visited "tuple_head (length ps) v b @ ''...''"]
    by (simp add: app_def and_always_def tuple_head_def split: sum.splits prod.splits)
  show ?thesis
    unfolding writeTuple_step writeTuple_loop_snoc[of 0 ps, simplified] and_always_assoc last
    by (simp add: and_always_def split: sum.splits prod.splits)
qed

theorem C2_variadic_slice_witness:
  "Type \<lparr>Name = ''b'', Type = Ref 2, Anonymous = False\<rparr> = Ref 2 \<and>
   deref E_func 2 = Some (Slice (Ref 1)) \<and>
   writeTuple E_func None
      ([\<lparr>Name = ''a'', Type = Ref 0, Anonymous = False\<rparr>]
         @ [\<lparr>Name = ''b'', Type = Ref 2, Anonymous = False\<rparr>]) True [Ref 5] ''func''
     = Inr (''func(a int, b ...string)'', None) \<and>
   typeString E_func None (Ref 5) = Inr (''func(a int, b ...string) (bool, error)'', None)"
  using C2_variadic_slice[of "\<lparr>Name = ''b'', Type = Ref 2, Anonymous = False\<rparr>" 2 E_func "Ref 1"
      None "[\<lparr>Name = ''a'', Type = Ref 0, Anonymous = False\<rparr>]" "[Ref 5]" "''func''"]
  by (simp add: E_func_def eval_simps)

text \<open>
  C2 as it is stated has the element type first and the token after it.  For
  \<open>func(a int, b ...string) (bool, error)\<close> the code writes \<open>b ...string\<close>, not
  \<open>b string...\<close>.
\<close>

theorem C2_counterexample:
  "deref E_func 2 = Some (Slice (Ref 1)) \<and>
   writeType E_func None (Ref 1) [Ref 5] [] = Inr (''string'', None) \<and>
   writeTuple E_func None
      [\<lparr>Name = ''a'', Type = Ref 0, Anonymous = False\<rparr>,
       \<lparr>Name = ''b'', Type = Ref 2, Anonymous = False\<rparr>] True [Ref 5] []
     = Inr (''(a int, b ...string)'', None) \<and>
   writeTuple E_func None
      [\<lparr>Name = ''a'', Type = Ref 0, Anonymous = False\<rparr>,
       \<lparr>Name = ''b'', Type = Ref 2, Anonymous = False\<rparr>] True [Ref 5] []
     \<noteq> Inr (''(a int, b string...)'', None) \<and>
   typeString E_func None (Ref 5) \<noteq> Inr (''func(a int, b string...) (bool, error)'', None)"
  by (simp add: E_func_def eval_simps)

text \<open>
  C3.  In a variadic tuple whose last parameter \<open>v\<close> has a type that is not a slice:
  when the underlying type of that type (for a named type, the type it is defined as;
  the type itself otherwise) is the basic type of kind \<open>String\<close>, the parameter is
  written as the type itself followed by the token \<open>...\<close>; when it is not, the call
  panics with \<open>internal error: string type expected\<close> and nothing is returned.
\<close>

theorem C3_variadic_not_slice:
  assumes "Type v = Ref c" and "deref E c = Some n" and "\<forall>e. n \<noteq> Slice e"
  shows "writeTuple E pkg (ps @ [v]) True visited buf =
     (case writeTuple_loop E pkg ps False 0 visited (buf @ ''('') of
        Inl p \<Rightarrow> Inl p
      | Inr (b, err) \<Rightarrow>
          if (\<exists>d nm. (case n of Named ow na u \<Rightarrow> u | Opaque tg st u \<Rightarrow> u | _ \<Rightarrow> Ref c) = Ref d
                      \<and> deref E d = Some (Basic String nm))
          then
            (case writeType E pkg (Ref c) visited [] of
               Inl p \<Rightarrow> Inl p
             | Inr (s, err') \<Rightarrow>
                 Inr (b @ (if ps = [] then [] else '', '')
                        @ (if Name v = [] then [] else Name v @ '' '')
                        @ s @ ''...'' @ '')'', None))
          else Inl (Panic ''internal error: string type expected''))"
proof -
  let ?u = "case n of Named ow na u \<Rightarrow> u | Opaque tg st u \<Rightarrow> u | _ \<Rightarrow> Ref c"
  have nth: "(ps @ [v]) ! length ps = v" by simp
  have sl: "as_Slice E (Type ((ps @ [v]) ! length ps)) = None"
    using assms by (cases n) (simp_all add: as_Slice_def)
  have un: "Underlying E (Type ((ps @ [v]) ! length ps)) = Inr ?u"
    using assms by (cases n) (simp_all add: Underlying_def)
  have str: "as_Basic E ?u = Some String
      \<longleftrightarrow> (\<exists>d nm. ?u = Ref d \<and> deref E d = Some (Basic String nm))"
    by (auto simp add: as_Basic_def split: type_ref.splits option.splits node.splits)
  have fin: "writeTuple_loop E pkg (ps @ [v]) True (Suc (length ps)) visited = (\<lambda>b. Inr (b, None))"
    by (intro ext) (simp add: writeTuple_loop_done)
  have lt: "length ps < length (ps @ [v])" by simp
  have la: "True \<and> length ps = length (ps @ [v]) - 1" by simp
  have last: "writeTuple_loop E pkg (ps @ [v]) True (length ps) visited b =
      (if as_Basic E ?u = Some String
       then
         (case writeType E pkg (Ref c) visited [] of
            Inl p \<Rightarrow> Inl p
          | Inr (s, err') \<Rightarrow>
              Inr (b @ (if ps = [] then [] else '', '')
                     @ (if Name v = [] then [] else Name v @ '' '') @ s @ ''...'', None))
       else Inl (Panic ''internal error: string type expected''))" for b
  proof (cases "as_Basic E ?u = Some String")
    case True
    have "writeTuple_loop E pkg (ps @ [v]) True (length ps) visited b =
        and_always (writeType E pkg (Ref c) visited (tuple_head (length ps) v b))
          (\<lambda>b'. Inr (b' @ ''...'', None))"
      unfolding writeTuple_loop_string[OF lt la sl un True] using assms(1) by (simp add: fin)
    then show ?thesis
      unfolding writeType_from_empty[of E pkg "Ref c" visited "tuple_head (length ps) v b"]
      using True
      by (simp add: app_def and_always_def tuple_head_def split: sum.splits prod.splits)
  next
    case False
    then show ?thesis by (simp add: writeTuple_loop_not_string[OF lt la sl un False])
  qed
  have "writeTuple E pkg (ps @ [v]) True visited buf =
     (case writeTuple_loop E pkg ps False 0 visited (buf @ ''('') of
        Inl p \<Rightarrow> Inl p
      | Inr (b, err) \<Rightarrow>
          if as_Basic E ?u = Some String
          then
            (case writeType E pkg (Ref c) visited [] of
               Inl p \<Rightarrow> Inl p
             | Inr (s, err') \<Rightarrow>
                 Inr (b @ (if ps = [] then [] else '', '')
                        @ (if Name v = [] then [] else Name v @ '' '')
                        @ s @ ''...'' @ '')'', None))
          else Inl (Panic ''internal error: string type expected''))"
    unfolding writeTuple_step writeTuple_loop_snoc[of 0 ps, simplified] and_always_assoc last
    by (simp add: and_always_def split: sum.splits prod.splits)
  then show ?thesis unfolding str .
qed

theorem C3_variadic_not_slice_witness:
  "Type \<lparr>Name = [], Type = Ref 2, Anonymous = False\<rparr> = Ref 2 \<and>
   deref E_append 2 = Some (Basic String ''string'') \<and>
   (\<forall>e. Basic String ''string'' \<noteq> Slice e) \<and>
   writeTuple E_append None
      ([\<lparr>Name = [], Type = Ref 1, Anonymous = False\<rparr>]
         @ [\<lparr>Name = [], Type = Ref 2, Anonymous = False\<rparr>]) True [Ref 3] ''func''
     = Inr (''func([]byte, string...)'', None) \<and>
   typeString E_append None (Ref 3) = Inr (''func([]byte, string...)'', None) \<and>
   typeString E_append (Some 2) (Ref 7) = Inr (''func(s p.Str...)'', None) \<and>
   writeTuple E_append None ([] @ [\<lparr>Name = [], Type = Ref 4, Anonymous = False\<rparr>]) True [Ref 5] ''func''
     = Inl (Panic ''internal error: string type expected'') \<and>
   typeString E_append None (Ref 5) = Inl (Panic ''internal error: string type expected'')"
  using C3_variadic_not_slice[of "\<lparr>Name = [], Type = Ref 2, Anonymous = False\<rparr>" 2 E_append
      "Basic String ''string''" None "[\<lparr>Name = [], Type = Ref 1, Anonymous = False\<rparr>]"
      "[Ref 3]" "''func''"]
    C3_variadic_not_slice[of "\<lparr>Name = [], Type = Ref 4, Anonymous = False\<rparr>" 4 E_append
      "Basic IntKind ''int''" None "[]" "[Ref 5]" "''func''"]
  by (simp add: E_append_def eval_simps)

section \<open>The invalid type\<close>

text \<open>
  C4.  The invalid type at the root gives the error, and so does the invalid type
  under a map or a pointer: the callers there hand the error on.  \<open>writeTuple\<close>
  does not: it calls \<open>writeType\<close> and drops what it returns, so the invalid type as a
  parameter, in a tuple or anywhere below a signature is reached and no error comes
  back.
\<close>

theorem C4_error_lost_in_tuple:
  "typeString E_invalid None (Ref 0) = Inr ([], Some (Error ''TODO'')) \<and>
   typeString E_invalid None (Ref 3) = Inr (''map[string]'', Some (Error ''TODO'')) \<and>
   typeString E_invalid None (Ref 6) = Inr (''*'', Some (Error ''TODO'')) \<and>
   typeString E_invalid None (Ref 1) = Inr (''func()'', None) \<and>
   typeString E_invalid None (Ref 4) = Inr (''(x )'', None) \<and>
   typeString E_invalid None (Ref 5) = Inr (''struct{f func()}'', None)"
  by (simp add: E_invalid_def eval_simps)

section \<open>Named types\<close>



section \<open>Signatures\<close>

text \<open>
  C6.  A signature that is not on the active path is written as \<open>func\<close> followed by its
  parameter tuple.  With no result nothing follows.  With one result that has no name,
  a space and the type of the result follow.  Otherwise a space and the tuple of the
  results follow.  What \<open>writeTuple\<close> writes starts with \<open>(\<close> and ends with \<open>)\<close>, so the
  results are in parentheses in the last case and the lone result is not.
\<close>

theorem C6_signature:
  assumes "Ref a \<notin> set visited" and "deref E a = Some (Signature ps rs v)"
  shows "writeType E pkg (Ref a) visited buf =
    (case writeTuple E pkg ps v (visited @ [Ref a]) [] of
       Inl p \<Rightarrow> Inl p
     | Inr (params, perr) \<Rightarrow>
         if length rs = 0 then Inr (buf @ ''func'' @ params, None)
         else if length rs = 1 \<and> Name (rs ! 0) = [] then
           (case writeType E pkg (Type (rs ! 0)) (visited @ [Ref a]) [] of
              Inl p \<Rightarrow> Inl p
            | Inr (r, err) \<Rightarrow> Inr (buf @ ''func'' @ params @ '' '' @ r, err))
         else
           (case writeTuple E pkg rs False (visited @ [Ref a]) [] of
              Inl p \<Rightarrow> Inl p
            | Inr (r, err) \<Rightarrow> Inr (buf @ ''func'' @ params @ '' '' @ r, None)))
    \<and> (case writeTuple E pkg ps v (visited @ [Ref a]) [] of
         Inl p \<Rightarrow> True | Inr (params, perr) \<Rightarrow> (\<exists>body. params = ''('' @ body @ '')''))
    \<and> (case writeTuple E pkg rs False (visited @ [Ref a]) [] of
         Inl p \<Rightarrow> True | Inr (r, err) \<Rightarrow> (\<exists>body. r = ''('' @ body @ '')''))"
proof -
  let ?vis = "visited @ [Ref a]"
  have shape: "case writeTuple E pkg tup w ?vis [] of
         Inl p \<Rightarrow> True | Inr (r, err) \<Rightarrow> err = None \<and> (\<exists>body. r = ''('' @ body @ '')'')" for tup w
    using writeTuple_parenthesised[of E pkg tup w ?vis]
    by (auto split: sum.splits prod.splits)
  have "writeType E pkg (Ref a) visited buf
      = and_always (app (buf @ ''func'') (writeTuple E pkg ps v ?vis []))
          (\<lambda>b. if length rs = 0 then Inr (b, None)
            else if length rs = 1 \<and> Name (rs ! 0) = []
            then app (b @ '' '') (writeType E pkg (Type (rs ! 0)) ?vis [])
            else app (b @ '' '') (writeTuple E pkg rs False ?vis []))"
    using assms
    by (simp add: writeType_Signature writeSignature_step
        writeTuple_from_empty[of E pkg ps v ?vis "buf @ ''func''"]
        writeType_from_empty[of E pkg "Type (rs ! 0)" ?vis "_ @ '' ''"]
        writeTuple_from_empty[of E pkg rs False ?vis "_ @ '' ''"] cong: if_cong)
  then have main: "writeType E pkg (Ref a) visited buf =
    (case writeTuple E pkg ps v (visited @ [Ref a]) [] of
       Inl p \<Rightarrow> Inl p
     | Inr (params, perr) \<Rightarrow>
         if length rs = 0 then Inr (buf @ ''func'' @ params, None)
         else if length rs = 1 \<and> Name (rs ! 0) = [] then
           (case writeType E pkg (Type (rs ! 0)) (visited @ [Ref a]) [] of
              Inl p \<Rightarrow> Inl p
            | Inr (r, err) \<Rightarrow> Inr (buf @ ''func'' @ params @ '' '' @ r, err))
         else
           (case writeTuple E pkg rs False (visited @ [Ref a]) [] of
              Inl p \<Rightarrow> Inl p
            | Inr (r, err) \<Rightarrow> Inr (buf @ ''func'' @ params @ '' '' @ r, None)))"
    using shape[of rs False]
    by (auto simp add: app_def split: sum.splits prod.splits)
  from main shape[of ps v] shape[of rs False] show ?thesis
    by (auto split: sum.splits prod.splits)
qed

theorem C6_signature_witness:
  "Ref 5 \<notin> set [] \<and> deref E_func 6 = Some (Signature
      [\<lparr>Name = [], Type = Ref 0, Anonymous = False\<rparr>]
      [\<lparr>Name = [], Type = Ref 3, Anonymous = False\<rparr>] False) \<and>
   typeString E_func None (Ref 5) = Inr (''func(a int, b ...string) (bool, error)'', None) \<and>
   typeString E_func None (Ref 6) = Inr (''func(int) bool'', None) \<and>
   typeString E_func None (Ref 7) = Inr (''func(int) (ok bool)'', None) \<and>
   typeString E_func None (Ref 8) = Inr (''func()'', None)"
  using C6_signature[of 5 "[]" E_func _ _ _ None "[]"]
    C6_signature[of 6 "[]" E_func _ _ _ None "[]"]
    C6_signature[of 7 "[]" E_func _ _ _ None "[]"]
    C6_signature[of 8 "[]" E_func _ _ _ None "[]"]
  by (simp add: E_func_def eval_simps)

section \<open>Channels\<close>

text \<open>
  C7.  A channel that is not on the active path, with one of the three declared
  directions, is written as the prefix of its direction followed by its element type.
  The element is put in parentheses exactly when the channel is bidirectional and its
  element is, in the store, a receive-only channel.  When writing the element fails,
  what was written so far (with the opening parenthesis, without the closing one) comes
  back with the error.
\<close>

theorem C7_channel:
  assumes "Ref a \<notin> set visited" and "deref E a = Some (Chan dir elem)"
    and "dir = SendRecv \<or> dir = SendOnly \<or> dir = RecvOnly"
  shows "writeType E pkg (Ref a) visited buf =
     (case writeType E pkg elem (visited @ [Ref a]) [] of
        Inl p \<Rightarrow> Inl p
      | Inr (s, Some err) \<Rightarrow>
          Inr (buf @ (if dir = SendRecv then ''chan ''
                      else if dir = SendOnly then ''chan<- '' else ''<-chan '')
                   @ (if dir = SendRecv \<and> (\<exists>b e. elem = Ref b \<and> deref E b = Some (Chan RecvOnly e))
                      then ''('' else []) @ s,
               Some err)
      | Inr (s, None) \<Rightarrow>
          Inr (buf @ (if dir = SendRecv then ''chan ''
                      else if dir = SendOnly then ''chan<- '' else ''<-chan '')
                   @ (if dir = SendRecv \<and> (\<exists>b e. elem = Ref b \<and> deref E b = Some (Chan RecvOnly e))
                      then ''('' @ s @ '')'' else s),
               None))"
proof -
  have par: "as_Chan E elem = Some RecvOnly
      \<longleftrightarrow> (\<exists>b e. elem = Ref b \<and> deref E b = Some (Chan RecvOnly e))"
    by (auto simp add: as_Chan_def split: type_ref.splits option.splits node.splits)
  define pre where "pre = buf @ (if dir = SendRecv then ''chan ''
                      else if dir = SendOnly then ''chan<- '' else ''<-chan '')
                   @ (if dir = SendRecv \<and> as_Chan E elem = Some RecvOnly then ''('' else [])"
  have "writeType E pkg (Ref a) visited buf =
      and_then (writeType E pkg elem (visited @ [Ref a]) pre)
        (\<lambda>b. Inr (if dir = SendRecv \<and> as_Chan E elem = Some RecvOnly then b @ '')'' else b, None))"
    using assms by (auto simp add: writeType_Chan case_and_then pre_def)
  also have "writeType E pkg elem (visited @ [Ref a]) pre
      = app pre (writeType E pkg elem (visited @ [Ref a]) [])"
    by (rule writeType_from_empty)
  finally have "writeType E pkg (Ref a) visited buf =
     (case writeType E pkg elem (visited @ [Ref a]) [] of
        Inl p \<Rightarrow> Inl p
      | Inr (s, Some err) \<Rightarrow>
          Inr (buf @ (if dir = SendRecv then ''chan ''
                      else if dir = SendOnly then ''chan<- '' else ''<-chan '')
                   @ (if dir = SendRecv \<and> as_Chan E elem = Some RecvOnly
                      then ''('' else []) @ s,
               Some err)
      | Inr (s, None) \<Rightarrow>
          Inr (buf @ (if dir = SendRecv then ''chan ''
                      else if dir = SendOnly then ''chan<- '' else ''<-chan '')
                   @ (if dir = SendRecv \<and> as_Chan E elem = Some RecvOnly
                      then ''('' @ s @ '')'' else s),
               None))"
    by (auto simp add: pre_def split: sum.splits option.splits prod.splits)
  then show ?thesis unfolding par .
qed

theorem C7_channel_witness:
  "Ref 2 \<notin> set [] \<and> deref E_chan 2 = Some (Chan SendRecv (Ref 1)) \<and>
   (SendRecv = SendRecv \<or> SendRecv = SendOnly \<or> SendRecv = RecvOnly) \<and>
   typeString E_chan None (Ref 2) = Inr (''chan (<-chan int)'', None) \<and>
   typeString E_chan None (Ref 3) = Inr (''chan int'', None) \<and>
   typeString E_chan None (Ref 5) = Inr (''chan chan<- int'', None) \<and>
   typeString E_chan None (Ref 8) = Inr (''chan chan int'', None) \<and>
   typeString E_chan None (Ref 6) = Inr (''chan<- <-chan int'', None) \<and>
   typeString E_chan None (Ref 7) = Inr (''<-chan <-chan int'', None)"
  using C7_channel[of 2 "[]" E_chan SendRecv "Ref 1" None "[]"]
    C7_channel[of 3 "[]" E_chan SendRecv "Ref 0" None "[]"]
    C7_channel[of 5 "[]" E_chan SendRecv "Ref 4" None "[]"]
    C7_channel[of 6 "[]" E_chan SendOnly "Ref 1" None "[]"]
  by (simp add: E_chan_def eval_simps)

section \<open>Structs\<close>

text \<open>
  C8.  A struct that is not on the active path, the types of whose fields are written
  without an error as the strings \<open>ts\<close>, is written as \<open>struct{\<close>, its fields joined
  by \<open>; \<close>, and \<open>}\<close>.  A field is its name and a space, left out when the field is
  embedded, then its type, then, exactly when it has a tag that is not empty, a space
  and the tag as \<open>%q\<close> quotes it.
\<close>

theorem C8_struct:
  assumes "Ref a \<notin> set visited" and "deref E a = Some (Struct fs tags)"
    and "\<forall>i<length fs. writeType E pkg (Type (fs ! i)) (visited @ [Ref a]) [] = Inr (ts ! i, None)"
  shows "writeType E pkg (Ref a) visited buf =
     Inr (buf @ ''struct{''
            @ join ''; ''
                (map (\<lambda>i. (if Anonymous (fs ! i) then [] else Name (fs ! i) @ '' '')
                           @ ts ! i
                           @ (if i < length tags \<and> tags ! i \<noteq> []
                              then '' '' @ quote E (tags ! i) else []))
                     [0..<length fs])
            @ ''}'', None)"
  unfolding writeType_Struct[OF assms(1,2)]
    writeType_fields_all[where ts = ts, OF assms(3) le0]
  by (simp add: concat_sep_upt[symmetric] del: upt_Suc)

theorem C8_struct_witness:
  "Ref 1 \<notin> set [] \<and>
   deref E_struct 1 = Some (Struct [\<lparr>Name = ''X'', Type = Ref 0, Anonymous = False\<rparr>]
                              [''json:'' @ [CHR 0x22] @ ''x'' @ [CHR 0x22]]) \<and>
   writeType E_struct None (Ref 0) [Ref 1] [] = Inr (''int'', None) \<and>
   typeString E_struct None (Ref 1)
     = Inr (''struct{X int '' @ [CHR 0x22] @ ''json:'' @ [CHR 0x5C, CHR 0x22] @ ''x''
              @ [CHR 0x5C, CHR 0x22, CHR 0x22] @ ''}'', None) \<and>
   typeString E_struct None (Ref 3) = Inr (''struct{error; n int '' @ [CHR 0x22] @ ''k'' @ [CHR 0x22]
              @ ''; p *struct{X int '' @ [CHR 0x22] @ ''json:'' @ [CHR 0x5C, CHR 0x22] @ ''x''
              @ [CHR 0x5C, CHR 0x22, CHR 0x22] @ ''}}'', None) \<and>
   typeString E_struct None (Ref 5) = Inr (''struct{}'', None)"
  using C8_struct[where a = 1 and visited = "[]" and E = E_struct
      and fs = "[\<lparr>Name = ''X'', Type = Ref 0, Anonymous = False\<rparr>]"
      and tags = "[''json:'' @ [CHR 0x22] @ ''x'' @ [CHR 0x22]]" and ts = "[''int'']"
      and pkg = None and buf = "[]"]
  by (simp add: E_struct_def eval_simps)

section \<open>C9: rendering is a function of the scope and the graph under the root\<close>

text \<open>
  C9.  Two calls of \<open>typeString\<close> with the same qualifier and the same root on the same
  type graph return the same string and the same error.  The source reads the nodes it
  reaches from the root, the qualifier and nothing else, and it writes only to its own
  buffer and to the path \<open>visited\<close>; so the call is the function \<open>typeString E pkg t\<close> of
  the store, and what remains to be shown is that it reads no more of the store than
  the graph under the root: on two stores that have the same nodes at every address of
  a set \<open>S\<close> closed under the references of these nodes, and the same package names and
  quoting, every root in \<open>S\<close> has the same rendering, whatever the stores hold elsewhere.
\<close>

theorem C9_same_graph_same_output:
  assumes "same_graph E E' S" and "within S t"
  shows "typeString E' pkg t = typeString E pkg t"
  using same_graph_writeType[where E = E and t = t and visited = "[]" and pkg = pkg and buf = "[]"]
    assms
  by (simp add: typeString_def)

theorem C9_same_graph_same_output_witness:
  "same_graph E_cycle E_cycle_moved {0, 1, 2} \<and> within {0, 1, 2} (Ref 2) \<and>
   nodes E_cycle_moved \<noteq> nodes E_cycle \<and>
   typeString E_cycle_moved None (Ref 2) = typeString E_cycle None (Ref 2) \<and>
   typeString E_cycle None (Ref 2)
     = Inr (''*struct{next '' @ [CHR 0xE2, CHR 0x97, CHR 0x8B] @ ''*types.Pointer; v int}'', None) \<and>
   \<not> same_graph E_cycle E_cycle_moved {0, 1, 2, 3} \<and>
   typeString E_cycle_moved None (Ref 3) \<noteq> typeString E_cycle None (Ref 3)"
  using C9_same_graph_same_output[of E_cycle E_cycle_moved "{0, 1, 2}" "Ref 2" None]
  by (simp add: same_graph_def within_def E_cycle_def E_cycle_moved_def cycle_def eval_simps)

section \<open>The string returned with an error\<close>

text \<open>
  C10.  When \<open>typeString\<close> returns an error, the string it returns with it is the
  buffer as \<open>writeType\<close> left it: nothing clears it.  That string is empty only when
  the root itself is the invalid type; when the invalid type is met below the root, the
  string holds what was written before, as \<open>map[string]\<close> for a map from strings to
  the invalid type.
\<close>

theorem C10_output_kept_on_error:
  assumes "typeString E pkg t = Inr (s, Some err)"
  shows "writeType E pkg t [] [] = Inr (s, Some err) \<and>
         (s = [] \<longleftrightarrow> (\<exists>a nm. t = Ref a \<and> deref E a = Some (Basic Invalid nm)))"
proof -
  from assms have w: "writeType E pkg t [] [] = Inr (s, Some err)"
    by (simp add: typeString_def)
  have "s = [] \<longleftrightarrow> (\<exists>a nm. t = Ref a \<and> deref E a = Some (Basic Invalid nm))"
  proof (cases t)
    case TNil
    with w show ?thesis by (simp add: writeType_TNil)
  next
    case (Ref a)
    show ?thesis
    proof (cases "deref E a")
      case None
      with w Ref show ?thesis by (simp add: writeType_dangling)
    next
      case (Some n)
      show ?thesis
      proof (cases "\<exists>nm. n = Basic Invalid nm")
        case True
        with w Ref Some show ?thesis by (auto simp add: writeType_Basic)
      next
        case False
        with error_leaves_output[OF w[unfolded Ref] Some] Ref Some show ?thesis by auto
      qed
    qed
  qed
  with w show ?thesis by simp
qed

theorem C10_output_kept_on_error_witness:
  "typeString E_invalid None (Ref 3) = Inr (''map[string]'', Some (Error ''TODO'')) \<and>
   writeType E_invalid None (Ref 3) [] [] = Inr (''map[string]'', Some (Error ''TODO'')) \<and>
   ''map[string]'' \<noteq> [] \<and>
   typeString E_invalid None (Ref 6) = Inr (''*'', Some (Error ''TODO'')) \<and>
   typeString E_invalid None (Ref 0) = Inr ([], Some (Error ''TODO''))"
  using C10_output_kept_on_error[of E_invalid None "Ref 3" "''map[string]''" "Error ''TODO''"]
    C10_output_kept_on_error[of E_invalid None "Ref 0" "[]" "Error ''TODO''"]
  by (simp add: E_invalid_def eval_simps)

end
